theory Spec2Isabelle
  imports Main "HOL-Library.Char_ord"
begin

section \<open>The tag system: tag table, cursor and tag document parser\<close>

text \<open>
  A shallow embedding of the C file of the tag system (\<^verbatim>\<open>init_tag\<close>, \<^verbatim>\<open>cleanup_tag\<close>,
  \<^verbatim>\<open>load_tag_file\<close>, the cursor functions, \<^verbatim>\<open>parse_tag_document\<close> and
  \<^verbatim>\<open>parse_tag_callback\<close>).

  \<^item> The file-scope variables and the static buffers of \<^verbatim>\<open>parse_tag_document\<close> are the
    fields of the record \<open>tag_system\<close>; every function takes the state and returns the new
    one.
  \<^item> A C \<^verbatim>\<open>int\<close> is an \<open>int\<close> between \<open>INT_MIN\<close> and \<open>INT_MAX\<close>. The two counters that no
    check of the code bounds (\<^verbatim>\<open>line++\<close>, \<^verbatim>\<open>cur_index++\<close>) overflow at \<open>INT_MAX\<close>, which C
    leaves undefined: the model returns the fault \<open>Signed_overflow\<close> there. Every other
    increment follows a check or an array store that keeps it in range.
  \<^item> An array is a function from its indices; a store or a load outside the declared
    bounds, which C leaves undefined, is the fault \<open>Out_of_bounds\<close>.
  \<^item> A \<^verbatim>\<open>char *\<close> that owns a string is a \<open>cptr\<close>: \<open>NULL\<close>, a live allocation holding a
    string, or a dangling pointer to freed memory. No allocation of this file is ever
    held by two pointers, so freeing through a pointer affects that pointer only.
  \<^item> A function of the model returns \<open>Inl\<close> of a fault where the C program has
    undefined behaviour and \<open>Inr\<close> of its result otherwise.
\<close>

subsection \<open>Constants and values of C\<close>

datatype fault = Out_of_bounds | Double_free | Signed_overflow | Null_dereference

datatype cptr = NULL | Ptr string | Freed

abbreviation INT_MAX :: int where "INT_MAX \<equiv> 2147483647"

abbreviation TAG_NAME_MAX :: int where "TAG_NAME_MAX \<equiv> 128"
abbreviation PROP_NAME_MAX :: int where "PROP_NAME_MAX \<equiv> 128"
abbreviation PROP_VALUE_MAX :: int where "PROP_VALUE_MAX \<equiv> 4096"
abbreviation COMMAND_MAX :: int where "COMMAND_MAX \<equiv> 65536"

abbreviation NUL :: char where "NUL \<equiv> CHR 0x00"
abbreviation TAB :: char where "TAB \<equiv> CHR 0x09"
abbreviation NL :: char where "NL \<equiv> CHR 0x0A"
abbreviation CR :: char where "CR \<equiv> CHR 0x0D"
abbreviation DQUOTE :: char where "DQUOTE \<equiv> CHR 0x22"
abbreviation BSLASH :: char where "BSLASH \<equiv> CHR 0x5C"

text \<open>\<^verbatim>\<open>free(p)\<close>, as the value the pointer variable holds afterwards: nothing happens for
  \<open>NULL\<close>, a live allocation is released and the variable dangles, and freeing a dangling
  pointer is a double free.\<close>

definition free :: "cptr \<Rightarrow> fault + cptr" where
  "free p = (case p of NULL \<Rightarrow> Inr NULL | Ptr str \<Rightarrow> Inr Freed | Freed \<Rightarrow> Inl Double_free)"

text \<open>A store \<^verbatim>\<open>buf[i] = c\<close> into \<^verbatim>\<open>char buf[cap]\<close>, and \<^verbatim>\<open>buf[r][i] = c\<close> into
  \<^verbatim>\<open>char buf[rows][cap]\<close>.\<close>

definition store :: "(int \<Rightarrow> char) \<Rightarrow> int \<Rightarrow> int \<Rightarrow> char \<Rightarrow> fault + (int \<Rightarrow> char)" where
  "store buf cap i c = (if 0 \<le> i \<and> i < cap then Inr (buf(i := c)) else Inl Out_of_bounds)"

definition store2 ::
  "(int \<Rightarrow> int \<Rightarrow> char) \<Rightarrow> int \<Rightarrow> int \<Rightarrow> int \<Rightarrow> int \<Rightarrow> char \<Rightarrow> fault + (int \<Rightarrow> int \<Rightarrow> char)" where
  "store2 buf rows cap r i c =
     (if 0 \<le> r \<and> r < rows \<and> 0 \<le> i \<and> i < cap then Inr (buf(r := (buf r)(i := c)))
      else Inl Out_of_bounds)"

text \<open>The C string that starts at \<^verbatim>\<open>buf[i]\<close>, read as \<^verbatim>\<open>strdup\<close> reads it: up to the first
  \<open>NUL\<close>; \<open>n\<close> is the number of bytes left in the array, and reading past them is out of
  bounds.\<close>

fun c_string :: "(int \<Rightarrow> char) \<Rightarrow> int \<Rightarrow> nat \<Rightarrow> fault + string" where
  "c_string buf i 0 = Inl Out_of_bounds"
| "c_string buf i (Suc n) =
     (if buf i = NUL then Inr []
      else (case c_string buf (i + 1) n of Inl f \<Rightarrow> Inl f | Inr str \<Rightarrow> Inr (buf i # str)))"

subsection \<open>The program state\<close>

text \<open>Modelled from the spec: \<^verbatim>\<open>struct tag\<close> and the constant \<^verbatim>\<open>PROP_MAX\<close> are declared in
  \<^verbatim>\<open>tag.h\<close>, which is not among the sources. The record has the fields the code uses
  (\<^verbatim>\<open>t->tag_name\<close>, \<^verbatim>\<open>t->prop_count\<close>, \<^verbatim>\<open>t->prop_name[i]\<close>, \<^verbatim>\<open>t->prop_value[i]\<close>,
  \<^verbatim>\<open>t->line\<close>), which are the spec's Tag Record: an owned name, an ordered sequence of
  properties bounded by a configured maximum, and a line number. The two arrays have
  \<open>PROP_MAX\<close> entries; \<open>PROP_MAX\<close> is a parameter of every function that uses it.\<close>

record tag =
  tag_name :: cptr
  prop_count :: int
  prop_name :: "int \<Rightarrow> cptr"
  prop_value :: "int \<Rightarrow> cptr"
  line :: int

text \<open>What the logging collaborator has been given: \<^verbatim>\<open>log_error\<close> with the file, the line
  and the message of a parse error, \<^verbatim>\<open>log_error("Too many tags.")\<close>, and
  \<^verbatim>\<open>log_out_of_memory()\<close>.\<close>

datatype log_entry = Log_parse_error string int cptr | Log_too_many_tags | Log_out_of_memory

text \<open>The file-scope variables \<^verbatim>\<open>cur_file\<close>, \<^verbatim>\<open>cur_index\<close>, \<^verbatim>\<open>tag\<close> (an array of \<open>COMMAND_MAX\<close>
  records) and \<^verbatim>\<open>tag_size\<close>; the static buffers \<^verbatim>\<open>tag_name\<close>, \<^verbatim>\<open>prop_name\<close> and \<^verbatim>\<open>prop_val\<close>
  of \<^verbatim>\<open>parse_tag_document\<close>, which keep their bytes between calls; and the environment:
  \<open>allocs\<close> lists whether each of the coming \<^verbatim>\<open>strdup\<close> calls finds memory (past the end
  of the list every call does), \<open>log\<close> is what has been logged.\<close>

record tag_system =
  cur_file :: string
  cur_index :: int
  tag :: "int \<Rightarrow> tag"
  tag_size :: int
  tag_name_buf :: "int \<Rightarrow> char"
  prop_name_buf :: "int \<Rightarrow> int \<Rightarrow> char"
  prop_val_buf :: "int \<Rightarrow> int \<Rightarrow> char"
  allocs :: "bool list"
  log :: "log_entry list"

text \<open>The state when the program starts: C initialises static storage with zeros.\<close>

definition zero_tag :: tag where
  "zero_tag = \<lparr>tag_name = NULL, prop_count = 0, prop_name = (\<lambda>i. NULL),
     prop_value = (\<lambda>i. NULL), line = 0\<rparr>"

definition initial_state :: tag_system where
  "initial_state = \<lparr>cur_file = [], cur_index = 0, tag = (\<lambda>i. zero_tag), tag_size = 0,
     tag_name_buf = (\<lambda>i. NUL), prop_name_buf = (\<lambda>r i. NUL), prop_val_buf = (\<lambda>r i. NUL),
     allocs = [], log = []\<rparr>"

text \<open>An assignment to a field of \<^verbatim>\<open>tag[k]\<close>.\<close>

definition upd_tag :: "int \<Rightarrow> (tag \<Rightarrow> tag) \<Rightarrow> 'a tag_system_scheme \<Rightarrow> 'a tag_system_scheme" where
  "upd_tag k f s = s\<lparr>tag := (tag s)(k := f (tag s k))\<rparr>"

definition log_entry :: "log_entry \<Rightarrow> 'a tag_system_scheme \<Rightarrow> 'a tag_system_scheme" where
  "log_entry e s = s\<lparr>log := log s @ [e]\<rparr>"

text \<open>Modelled from the spec: \<^verbatim>\<open>strdup\<close> is the C library's; it returns a fresh copy of the
  string, or \<open>NULL\<close> when no memory is left, which the spec calls the allocation error of
  the Record Builder. The next entry of \<open>allocs\<close> decides.\<close>

definition strdup :: "string \<Rightarrow> 'a tag_system_scheme \<Rightarrow> cptr \<times> 'a tag_system_scheme" where
  "strdup str s =
     (case allocs s of
        [] \<Rightarrow> (Ptr str, s)
      | ok # rest \<Rightarrow> (if ok then Ptr str else NULL, s\<lparr>allocs := rest\<rparr>))"

text \<open>\<^verbatim>\<open>strdup\<close> of the C string held in a buffer of \<open>cap\<close> bytes.\<close>

definition strdup_buf ::
  "(int \<Rightarrow> char) \<Rightarrow> int \<Rightarrow> 'a tag_system_scheme \<Rightarrow> fault + (cptr \<times> 'a tag_system_scheme)" where
  "strdup_buf buf cap s =
     (case c_string buf 0 (nat cap) of Inl f \<Rightarrow> Inl f | Inr str \<Rightarrow> Inr (strdup str s))"

subsection \<open>\<^verbatim>\<open>cleanup_tag\<close> and \<^verbatim>\<open>init_tag\<close>\<close>

text \<open>The two \<^verbatim>\<open>if\<close> statements of the inner loop for \<^verbatim>\<open>t = &tag[i]\<close>. Both index the
  arrays of the record with \<open>i\<close>, the index of the tag, as the source does.\<close>

definition free_prop_name :: "int \<Rightarrow> int \<Rightarrow> 'a tag_system_scheme \<Rightarrow> fault + 'a tag_system_scheme" where
  "free_prop_name PROP_MAX i s =
     (if i < 0 \<or> PROP_MAX \<le> i then Inl Out_of_bounds
      else if prop_name (tag s i) i = NULL then Inr s
      else (case free (prop_name (tag s i) i) of
              Inl f \<Rightarrow> Inl f
            | Inr p \<Rightarrow> Inr (upd_tag i (\<lambda>t. t\<lparr>prop_name := (prop_name t)(i := NULL)\<rparr>) s)))"

definition free_prop_value :: "int \<Rightarrow> int \<Rightarrow> 'a tag_system_scheme \<Rightarrow> fault + 'a tag_system_scheme" where
  "free_prop_value PROP_MAX i s =
     (if i < 0 \<or> PROP_MAX \<le> i then Inl Out_of_bounds
      else if prop_value (tag s i) i = NULL then Inr s
      else (case free (prop_value (tag s i) i) of
              Inl f \<Rightarrow> Inl f
            | Inr p \<Rightarrow> Inr (upd_tag i (\<lambda>t. t\<lparr>prop_value := (prop_value t)(i := NULL)\<rparr>) s)))"

text \<open>The inner loop \<^verbatim>\<open>for (j = 0; j < PROP_MAX; j++)\<close> for \<^verbatim>\<open>t = &tag[i]\<close>.\<close>

function cleanup_props :: "int \<Rightarrow> int \<Rightarrow> int \<Rightarrow> 'a tag_system_scheme \<Rightarrow> fault + 'a tag_system_scheme" where
  "cleanup_props PROP_MAX i j s =
     (if j < PROP_MAX then
        (case free_prop_name PROP_MAX i s of
           Inl f \<Rightarrow> Inl f
         | Inr s1 \<Rightarrow>
             (case free_prop_value PROP_MAX i s1 of
                Inl f \<Rightarrow> Inl f
              | Inr s2 \<Rightarrow> cleanup_props PROP_MAX i (j + 1) s2))
      else Inr s)"
  by pat_completeness auto
termination
  by (relation "measure (\<lambda>(PROP_MAX, i, j, s). nat (PROP_MAX - j))") auto

declare cleanup_props.simps [simp del]

text \<open>The outer loop \<^verbatim>\<open>for (i = 0; i < tag_size; i++)\<close>: \<^verbatim>\<open>free(t->tag_name)\<close> leaves the
  pointer in place, then the inner loop runs.\<close>

function cleanup_tags :: "int \<Rightarrow> int \<Rightarrow> 'a tag_system_scheme \<Rightarrow> fault + 'a tag_system_scheme" where
  "cleanup_tags PROP_MAX i s =
     (if i < tag_size s then
        (if i < 0 \<or> COMMAND_MAX \<le> i then Inl Out_of_bounds
         else (case free (tag_name (tag s i)) of
                 Inl f \<Rightarrow> Inl f
               | Inr p \<Rightarrow>
                   (case cleanup_props PROP_MAX i 0 (upd_tag i (\<lambda>t. t\<lparr>tag_name := p\<rparr>) s) of
                      Inl f \<Rightarrow> Inl f
                    | Inr s1 \<Rightarrow> cleanup_tags PROP_MAX (i + 1) s1)))
      else Inr s)"
  by pat_completeness auto
termination
proof (relation "measure (\<lambda>(PROP_MAX, i, s). nat (tag_size s - i))")
  show "wf (measure (\<lambda>(PROP_MAX, i, s). nat (tag_size s - i)))"
    by simp
next
  fix PROP_MAX i :: int and s s1 :: "'a tag_system_scheme" and p
  assume less: "i < tag_size s"
    and props: "cleanup_props PROP_MAX i 0 (upd_tag i (\<lambda>t. t\<lparr>tag_name := p\<rparr>) s) = Inr s1"
  have inner: "cleanup_props PROP_MAX i j u = Inr u' \<Longrightarrow> tag_size u' = tag_size u"
    for j and u u' :: "'a tag_system_scheme"
  proof (induction PROP_MAX i j u rule: cleanup_props.induct)
    case (1 PROP_MAX i j u)
    show ?case
    proof (cases "j < PROP_MAX")
      case False
      with "1.prems" show ?thesis by (simp add: cleanup_props.simps)
    next
      case True
      from "1.prems" True obtain u1 u2 where
        a: "free_prop_name PROP_MAX i u = Inr u1" and
        b: "free_prop_value PROP_MAX i u1 = Inr u2" and
        c: "cleanup_props PROP_MAX i (j + 1) u2 = Inr u'"
        by (subst (asm) cleanup_props.simps) (auto split: sum.splits)
      from a have "tag_size u1 = tag_size u"
        by (auto simp: free_prop_name_def upd_tag_def split: if_splits sum.splits)
      moreover from b have "tag_size u2 = tag_size u1"
        by (auto simp: free_prop_value_def upd_tag_def split: if_splits sum.splits)
      ultimately show ?thesis
        using "1.IH" [OF True a b c] by simp
    qed
  qed
  from inner [OF props] have "tag_size s1 = tag_size s"
    by (simp add: upd_tag_def)
  with less show "((PROP_MAX, i + 1, s1), (PROP_MAX, i, s))
      \<in> measure (\<lambda>(PROP_MAX, i, s). nat (tag_size s - i))"
    by simp
qed

declare cleanup_tags.simps [simp del]

definition cleanup_tag :: "int \<Rightarrow> 'a tag_system_scheme \<Rightarrow> fault + 'a tag_system_scheme" where
  "cleanup_tag PROP_MAX s = cleanup_tags PROP_MAX 0 (s\<lparr>cur_index := 0, cur_file := []\<rparr>)"

definition init_tag :: "int \<Rightarrow> 'a tag_system_scheme \<Rightarrow> fault + 'a tag_system_scheme" where
  "init_tag PROP_MAX s = cleanup_tag PROP_MAX s"

subsection \<open>The cursor\<close>

definition get_tag_file_name :: "tag_system \<Rightarrow> string" where
  "get_tag_file_name s = cur_file s"

definition get_tag_line :: "tag_system \<Rightarrow> fault + int" where
  "get_tag_line s =
     (if tag_size s \<le> cur_index s then Inr (- 1)
      else if 0 \<le> cur_index s \<and> cur_index s < COMMAND_MAX then Inr (line (tag s (cur_index s)))
      else Inl Out_of_bounds)"

text \<open>A \<^verbatim>\<open>struct tag *\<close> is \<open>NULL\<close> or the address of an entry of the tag table.\<close>

datatype tag_ptr = Tag_NULL | Tag_at int

definition get_current_tag :: "tag_system \<Rightarrow> tag_ptr" where
  "get_current_tag s = (if tag_size s \<le> cur_index s then Tag_NULL else Tag_at (cur_index s))"

definition move_to_next_tag :: "tag_system \<Rightarrow> fault + tag_system" where
  "move_to_next_tag s =
     (if INT_MAX \<le> cur_index s then Inl Signed_overflow
      else Inr (s\<lparr>cur_index := cur_index s + 1\<rparr>))"

subsection \<open>\<^verbatim>\<open>parse_tag_callback\<close>\<close>

text \<open>The loop \<^verbatim>\<open>for (i = 0; i < props; i++)\<close> of the callback, for the record \<^verbatim>\<open>tag[k]\<close>.
  \<open>names\<close> and \<open>vals\<close> are the arguments \<^verbatim>\<open>prop_name\<close> and \<^verbatim>\<open>prop_value\<close>: \<open>None\<close> is the
  \<open>NULL\<close> the parser passes for a tag without properties, otherwise row \<open>i\<close> of the table is
  the C string \<^verbatim>\<open>prop_name[i]\<close> points to. The result \<open>False\<close> is the \<^verbatim>\<open>return false\<close> after
  \<^verbatim>\<open>log_out_of_memory()\<close>; \<open>True\<close> means that the loop has finished.\<close>

function copy_props ::
  "int \<Rightarrow> (int \<Rightarrow> int \<Rightarrow> char) option \<Rightarrow> (int \<Rightarrow> int \<Rightarrow> char) option \<Rightarrow> int \<Rightarrow> int \<Rightarrow> int
     \<Rightarrow> 'a tag_system_scheme \<Rightarrow> fault + (bool \<times> 'a tag_system_scheme)" where
  "copy_props PROP_MAX names vals props k i s =
     (if i < props then
        (case names of
           None \<Rightarrow> Inl Null_dereference
         | Some ns \<Rightarrow>
             (if i < 0 \<or> PROP_MAX \<le> i then Inl Out_of_bounds
              else (case strdup_buf (ns i) PROP_NAME_MAX s of
                Inl f \<Rightarrow> Inl f
              | Inr (p, s1) \<Rightarrow>
                  (let s2 = upd_tag k (\<lambda>t. t\<lparr>prop_name := (prop_name t)(i := p)\<rparr>) s1 in
                   if p = NULL then Inr (False, log_entry Log_out_of_memory s2)
                   else (case vals of
                     None \<Rightarrow> Inl Null_dereference
                   | Some vs \<Rightarrow>
                       (case strdup_buf (vs i) PROP_VALUE_MAX s2 of
                          Inl f \<Rightarrow> Inl f
                        | Inr (q, s3) \<Rightarrow>
                            (let s4 = upd_tag k (\<lambda>t. t\<lparr>prop_value := (prop_value t)(i := q)\<rparr>) s3 in
                             if q = NULL then Inr (False, log_entry Log_out_of_memory s4)
                             else copy_props PROP_MAX names vals props k (i + 1) s4)))))))
      else Inr (True, s))"
  by pat_completeness auto
termination
  by (relation "measure (\<lambda>(PROP_MAX, names, vals, props, k, i, s). nat (props - i))") auto

declare copy_props.simps [simp del]

text \<open>The callback: \<open>name\<close> is the buffer the argument \<^verbatim>\<open>name\<close> points to (the parser passes
  its \<^verbatim>\<open>tag_name\<close>).\<close>

definition parse_tag_callback ::
  "int \<Rightarrow> (int \<Rightarrow> char) \<Rightarrow> int \<Rightarrow> (int \<Rightarrow> int \<Rightarrow> char) option \<Rightarrow> (int \<Rightarrow> int \<Rightarrow> char) option \<Rightarrow> int
     \<Rightarrow> 'a tag_system_scheme \<Rightarrow> fault + (bool \<times> 'a tag_system_scheme)" where
  "parse_tag_callback PROP_MAX name props names vals ln s =
     (if COMMAND_MAX \<le> tag_size s then Inr (False, log_entry Log_too_many_tags s)
      else if tag_size s < 0 then Inl Out_of_bounds
      else
        (let k = tag_size s;
             s1 = upd_tag k (\<lambda>t. t\<lparr>prop_count := props\<rparr>) (s\<lparr>tag_size := k + 1\<rparr>)
         in case strdup_buf name TAG_NAME_MAX s1 of
              Inl f \<Rightarrow> Inl f
            | Inr (p, s2) \<Rightarrow>
                (let s3 = upd_tag k (\<lambda>t. t\<lparr>tag_name := p\<rparr>) s2 in
                 if p = NULL then Inr (False, log_entry Log_out_of_memory s3)
                 else (case copy_props PROP_MAX names vals props k 0 s3 of
                         Inl f \<Rightarrow> Inl f
                       | Inr (ok, s4) \<Rightarrow>
                           (if ok then Inr (True, upd_tag k (\<lambda>t. t\<lparr>line := ln\<rparr>) s4)
                            else Inr (False, s4))))))"

subsection \<open>\<^verbatim>\<open>parse_tag_document\<close>\<close>

datatype state = ST_INIT | ST_TAGNAME | ST_PROPNAME | ST_PROPVALUE_QUOTE | ST_PROPVALUE_BODY

text \<open>The state of a run of \<^verbatim>\<open>parse_tag_document\<close>: the program state, the local variables
  \<^verbatim>\<open>state\<close>, \<^verbatim>\<open>line\<close>, \<^verbatim>\<open>len\<close> and \<^verbatim>\<open>prop_count\<close> (with the prefix \<open>p_\<close>, since \<open>line\<close> and
  \<open>prop_count\<close> are fields of a tag too), and what the out parameters \<^verbatim>\<open>*error_msg\<close> and
  \<^verbatim>\<open>*error_line\<close> hold. The pointer \<^verbatim>\<open>top\<close> is the rest of the document, an argument of the
  loop.\<close>

record parser = tag_system +
  p_state :: state
  p_line :: int
  p_len :: int
  p_prop_count :: int
  p_error_msg :: cptr
  p_error_line :: int

text \<open>One iteration of the \<^verbatim>\<open>while\<close> loop ends in \<^verbatim>\<open>continue\<close>, with the new \<^verbatim>\<open>top\<close>, or in
  \<^verbatim>\<open>return false\<close>.\<close>

datatype step_result = Continue parser string | Return_false parser

text \<open>\<^verbatim>\<open>*error_msg = strdup(S_TR(msg)); *error_line = line;\<close> (\<^verbatim>\<open>S_TR\<close> marks a message for
  translation).\<close>

definition set_error :: "string \<Rightarrow> parser \<Rightarrow> parser" where
  "set_error msg st =
     (case strdup msg st of (m, st1) \<Rightarrow> st1\<lparr>p_error_msg := m, p_error_line := p_line st1\<rparr>)"

text \<open>\<^verbatim>\<open>line++\<close>\<close>

definition inc_line :: "parser \<Rightarrow> fault + parser" where
  "inc_line st =
     (if INT_MAX \<le> p_line st then Inl Signed_overflow else Inr (st\<lparr>p_line := p_line st + 1\<rparr>))"

text \<open>\<^verbatim>\<open>c == ' ' || c == '\r' || c == '\t'\<close>, and the same with \<^verbatim>\<open>|| c == '\n'\<close>.\<close>

definition is_blank :: "char \<Rightarrow> bool" where
  "is_blank c = (c = CHR '' '' \<or> c = CR \<or> c = TAB)"

definition is_space :: "char \<Rightarrow> bool" where
  "is_space c = (c = CHR '' '' \<or> c = CR \<or> c = TAB \<or> c = NL)"

text \<open>The characters of a property name.\<close>

definition is_name_char :: "char \<Rightarrow> bool" where
  "is_name_char c =
     ((CHR ''a'' \<le> c \<and> c \<le> CHR ''z'') \<or> (CHR ''A'' \<le> c \<and> c \<le> CHR ''Z'') \<or>
      (CHR ''0'' \<le> c \<and> c \<le> CHR ''9'') \<or> c = CHR ''-'' \<or> c = CHR ''_'')"

text \<open>\<^verbatim>\<open>case ST_INIT\<close>\<close>

definition step_init :: "parser \<Rightarrow> char \<Rightarrow> string \<Rightarrow> fault + step_result" where
  "step_init st c top0 =
     (if c = CHR ''['' then Inr (Continue (st\<lparr>p_state := ST_TAGNAME, p_len := 0\<rparr>) top0)
      else if c = NL then
        (case inc_line st of Inl f \<Rightarrow> Inl f | Inr st1 \<Rightarrow> Inr (Continue st1 top0))
      else if is_blank c then Inr (Continue st top0)
      else Inr (Return_false (set_error ''Invalid character.'' st)))"

text \<open>\<^verbatim>\<open>case ST_TAGNAME\<close>. The \<^verbatim>\<open>assert(len > 0)\<close> stands before a store at index \<^verbatim>\<open>len\<close>, which
  is out of bounds when the assertion fails.\<close>

definition step_tagname :: "int \<Rightarrow> parser \<Rightarrow> char \<Rightarrow> string \<Rightarrow> fault + step_result" where
  "step_tagname PROP_MAX st c top0 =
     (if p_len st = 0 \<and> is_space c then Inr (Continue st top0)
      else (case (if c = NL then inc_line st else Inr st) of
        Inl f \<Rightarrow> Inl f
      | Inr st1 \<Rightarrow>
          (if is_space c then
             (case store (tag_name_buf st1) TAG_NAME_MAX (p_len st1) NUL of
                Inl f \<Rightarrow> Inl f
              | Inr b \<Rightarrow>
                  Inr (Continue (st1\<lparr>tag_name_buf := b, p_state := ST_PROPNAME, p_len := 0\<rparr>) top0))
           else if c = CHR '']'' then
             (case store (tag_name_buf st1) TAG_NAME_MAX (p_len st1) NUL of
                Inl f \<Rightarrow> Inl f
              | Inr b \<Rightarrow>
                  (case parse_tag_callback PROP_MAX b 0 None None (p_line st1)
                          (st1\<lparr>tag_name_buf := b\<rparr>) of
                     Inl f \<Rightarrow> Inl f
                   | Inr (ok, st2) \<Rightarrow>
                       (if ok then Inr (Continue (st2\<lparr>p_state := ST_INIT\<rparr>) top0)
                        else Inr (Return_false (set_error ''Too many properties.'' st2)))))
           else if TAG_NAME_MAX \<le> p_len st1 then
             Inr (Return_false (set_error ''Tag name too long.'' st1))
           else
             (case store (tag_name_buf st1) TAG_NAME_MAX (p_len st1) c of
                Inl f \<Rightarrow> Inl f
              | Inr b \<Rightarrow> Inr (Continue (st1\<lparr>tag_name_buf := b, p_len := p_len st1 + 1\<rparr>) top0)))))"

text \<open>\<^verbatim>\<open>case ST_PROPNAME\<close>. The last branch sets the error message and continues, as the
  source does.\<close>

definition step_propname :: "int \<Rightarrow> parser \<Rightarrow> char \<Rightarrow> string \<Rightarrow> fault + step_result" where
  "step_propname PROP_MAX st c top0 =
     (if p_prop_count st = PROP_MAX then
        Inr (Return_false (set_error ''Too many properties.'' st))
      else if p_len st = 0 \<and> c = CHR '' '' then Inr (Continue st top0)
      else if p_len st = 0 \<and> c = CHR '']'' then
        (case parse_tag_callback PROP_MAX (tag_name_buf st) (p_prop_count st)
                (Some (prop_name_buf st)) (Some (prop_val_buf st)) (p_line st) st of
           Inl f \<Rightarrow> Inl f
         | Inr (ok, st1) \<Rightarrow>
             (if ok then Inr (Continue (st1\<lparr>p_state := ST_INIT\<rparr>) top0)
              else Inr (Return_false (set_error ''Internal error.'' st1))))
      else (case (if p_len st = 0 \<and> c = NL then inc_line st else Inr st) of
        Inl f \<Rightarrow> Inl f
      | Inr st1 \<Rightarrow>
          (if p_len st1 = 0 \<and> is_space c then Inr (Continue st1 top0)
           else if 0 < p_len st1 \<and> c = CHR ''='' then
             (case store2 (prop_name_buf st1) PROP_MAX PROP_NAME_MAX (p_prop_count st1)
                     (p_len st1) NUL of
                Inl f \<Rightarrow> Inl f
              | Inr b \<Rightarrow>
                  Inr (Continue
                    (st1\<lparr>prop_name_buf := b, p_state := ST_PROPVALUE_QUOTE, p_len := 0\<rparr>) top0))
           else if PROP_NAME_MAX \<le> p_len st1 then
             Inr (Return_false (set_error ''Property name too long.'' st1))
           else if is_name_char c then
             (case store2 (prop_name_buf st1) PROP_MAX PROP_NAME_MAX (p_prop_count st1)
                     (p_len st1) c of
                Inl f \<Rightarrow> Inl f
              | Inr b \<Rightarrow> Inr (Continue (st1\<lparr>prop_name_buf := b, p_len := p_len st1 + 1\<rparr>) top0))
           else Inr (Continue (set_error ''Invalid character.'' st1) top0))))"

text \<open>\<^verbatim>\<open>case ST_PROPVALUE_QUOTE\<close>\<close>

definition step_propvalue_quote :: "parser \<Rightarrow> char \<Rightarrow> string \<Rightarrow> fault + step_result" where
  "step_propvalue_quote st c top0 =
     (case (if c = NL then inc_line st else Inr st) of
        Inl f \<Rightarrow> Inl f
      | Inr st1 \<Rightarrow>
          (if is_space c then Inr (Continue st1 top0)
           else if c = DQUOTE then
             Inr (Continue (st1\<lparr>p_state := ST_PROPVALUE_BODY, p_len := 0\<rparr>) top0)
           else Inr (Continue st1 top0)))"

text \<open>\<^verbatim>\<open>prop_val[prop_count][len] = c; len++;\<close>, followed by \<^verbatim>\<open>continue\<close> with the given
  \<^verbatim>\<open>top\<close>.\<close>

definition append_value :: "int \<Rightarrow> parser \<Rightarrow> char \<Rightarrow> string \<Rightarrow> fault + step_result" where
  "append_value PROP_MAX st c top0 =
     (case store2 (prop_val_buf st) PROP_MAX PROP_VALUE_MAX (p_prop_count st) (p_len st) c of
        Inl f \<Rightarrow> Inl f
      | Inr b \<Rightarrow> Inr (Continue (st\<lparr>prop_val_buf := b, p_len := p_len st + 1\<rparr>) top0))"

text \<open>\<^verbatim>\<open>*top\<close>: the character after \<open>c\<close>, which is the terminating \<open>NUL\<close> at the end of the
  document.\<close>

definition peek :: "string \<Rightarrow> char" where
  "peek top0 = (case top0 of [] \<Rightarrow> NUL | d # rest \<Rightarrow> d)"

text \<open>\<^verbatim>\<open>case ST_PROPVALUE_BODY\<close>. In the first three cases of the inner \<^verbatim>\<open>switch\<close>, \<^verbatim>\<open>top++\<close>
  skips the character after the backslash.\<close>

definition step_propvalue_body :: "int \<Rightarrow> parser \<Rightarrow> char \<Rightarrow> string \<Rightarrow> fault + step_result" where
  "step_propvalue_body PROP_MAX st c top0 =
     (if c = BSLASH then
        (if peek top0 = DQUOTE then append_value PROP_MAX st DQUOTE (tl top0)
         else if peek top0 = CHR ''n'' then append_value PROP_MAX st NL (tl top0)
         else if peek top0 = BSLASH then append_value PROP_MAX st BSLASH (tl top0)
         else append_value PROP_MAX st BSLASH top0)
      else if c = DQUOTE then
        (case store2 (prop_val_buf st) PROP_MAX PROP_VALUE_MAX (p_prop_count st) (p_len st) NUL of
           Inl f \<Rightarrow> Inl f
         | Inr b \<Rightarrow>
             Inr (Continue
               (st\<lparr>prop_val_buf := b, p_prop_count := p_prop_count st + 1,
                   p_state := ST_PROPNAME, p_len := 0\<rparr>) top0))
      else if PROP_VALUE_MAX \<le> p_len st then
        Inr (Return_false (set_error ''Property value too long.'' st))
      else append_value PROP_MAX st c top0)"

text \<open>The body of the loop, after \<^verbatim>\<open>c = *top++\<close>: \<^verbatim>\<open>switch (state)\<close>.\<close>

definition step :: "int \<Rightarrow> parser \<Rightarrow> char \<Rightarrow> string \<Rightarrow> fault + step_result" where
  "step PROP_MAX st c top0 =
     (case p_state st of
        ST_INIT \<Rightarrow> step_init st c top0
      | ST_TAGNAME \<Rightarrow> step_tagname PROP_MAX st c top0
      | ST_PROPNAME \<Rightarrow> step_propname PROP_MAX st c top0
      | ST_PROPVALUE_QUOTE \<Rightarrow> step_propvalue_quote st c top0
      | ST_PROPVALUE_BODY \<Rightarrow> step_propvalue_body PROP_MAX st c top0)"

text \<open>The loop \<^verbatim>\<open>while (*top != '\0')\<close> leaves through its condition, at the end of the
  document, or through a \<^verbatim>\<open>return false\<close> of its body. The document is a C string: it ends
  at its first \<open>NUL\<close>.\<close>

datatype loop_result = Loop_end parser | Loop_return_false parser

function parse_loop :: "int \<Rightarrow> parser \<Rightarrow> string \<Rightarrow> fault + loop_result" where
  "parse_loop PROP_MAX st [] = Inr (Loop_end st)"
| "parse_loop PROP_MAX st (c # top0) =
     (if c = NUL then Inr (Loop_end st)
      else (case step PROP_MAX st c top0 of
              Inl f \<Rightarrow> Inl f
            | Inr (Return_false st1) \<Rightarrow> Inr (Loop_return_false st1)
            | Inr (Continue st1 top1) \<Rightarrow> parse_loop PROP_MAX st1 top1))"
  by pat_completeness auto
termination
proof (relation "measure (\<lambda>(PROP_MAX, st, doc). length doc)")
  show "wf (measure (\<lambda>(PROP_MAX, st, doc). length doc))"
    by simp
next
  fix PROP_MAX :: int and st st1 :: parser and c :: char and top0 top1 :: string and r
  assume "step PROP_MAX st c top0 = Inr r" and "r = Continue st1 top1"
  then have "top1 = top0 \<or> top1 = tl top0"
    by (auto simp: step_def step_init_def step_tagname_def step_propname_def
        step_propvalue_quote_def step_propvalue_body_def append_value_def
        split: state.splits if_splits sum.splits prod.splits)
  then have "length top1 \<le> length top0"
    by auto
  then show "((PROP_MAX, st1, top1), (PROP_MAX, st, c # top0))
      \<in> measure (\<lambda>(PROP_MAX, st, doc). length doc)"
    by simp
qed

declare parse_loop.simps [simp del]

text \<open>The program state at the entry of \<^verbatim>\<open>parse_tag_document\<close> with its local variables, and
  the program state it leaves. The out parameters point to uninitialised variables of
  \<^verbatim>\<open>load_tag_file\<close>; they are read only after a \<^verbatim>\<open>return false\<close>, which always follows an
  assignment to both.\<close>

definition parser_init :: "tag_system \<Rightarrow> parser" where
  "parser_init s =
     \<lparr>cur_file = cur_file s, cur_index = cur_index s, tag = tag s, tag_size = tag_size s,
      tag_name_buf = tag_name_buf s, prop_name_buf = prop_name_buf s,
      prop_val_buf = prop_val_buf s, allocs = allocs s, log = log s,
      p_state = ST_INIT, p_line = 1, p_len = 0, p_prop_count = 0,
      p_error_msg = NULL, p_error_line = 0\<rparr>"

definition system_of :: "parser \<Rightarrow> tag_system" where
  "system_of st =
     \<lparr>cur_file = cur_file st, cur_index = cur_index st, tag = tag st, tag_size = tag_size st,
      tag_name_buf = tag_name_buf st, prop_name_buf = prop_name_buf st,
      prop_val_buf = prop_val_buf st, allocs = allocs st, log = log st\<rparr>"

text \<open>What \<^verbatim>\<open>parse_tag_document\<close> returns: \<^verbatim>\<open>true\<close>, or \<^verbatim>\<open>false\<close> with \<^verbatim>\<open>*error_msg\<close> and
  \<^verbatim>\<open>*error_line\<close>; and the program state.\<close>

datatype parse_return = Parse_true tag_system | Parse_false cptr int tag_system

definition parse_false :: "parser \<Rightarrow> parse_return" where
  "parse_false st = Parse_false (p_error_msg st) (p_error_line st) (system_of st)"

definition parse_tag_document :: "int \<Rightarrow> string \<Rightarrow> tag_system \<Rightarrow> fault + parse_return" where
  "parse_tag_document PROP_MAX doc s =
     (case parse_loop PROP_MAX (parser_init s) doc of
        Inl f \<Rightarrow> Inl f
      | Inr (Loop_return_false st) \<Rightarrow> Inr (parse_false st)
      | Inr (Loop_end st) \<Rightarrow>
          (if p_state st = ST_INIT then Inr (Parse_true (system_of st))
           else Inr (parse_false (set_error ''Unexpected EOF'' st))))"

subsection \<open>\<^verbatim>\<open>load_tag_file\<close>\<close>

text \<open>Modelled from the spec: \<^verbatim>\<open>load_file\<close> is the external file-read collaborator, which
  gives the entire content of the file at a path, or fails. \<open>fs\<close> maps a path to the content
  of its file. The file name is a C string; \<^verbatim>\<open>strncpy\<close> copies at most
  \<^verbatim>\<open>sizeof(cur_file) - 1\<close> of its characters.\<close>

definition load_tag_file ::
  "int \<Rightarrow> (string \<Rightarrow> string option) \<Rightarrow> string \<Rightarrow> tag_system \<Rightarrow> fault + (bool \<times> tag_system)" where
  "load_tag_file PROP_MAX fs file s =
     (case fs file of
        None \<Rightarrow> Inr (False, s)
      | Some buf \<Rightarrow>
          (case cleanup_tag PROP_MAX s of
             Inl f \<Rightarrow> Inl f
           | Inr s1 \<Rightarrow>
               (case parse_tag_document PROP_MAX buf (s1\<lparr>cur_file := take 1023 file\<rparr>) of
                  Inl f \<Rightarrow> Inl f
                | Inr (Parse_false msg ln s2) \<Rightarrow>
                    Inr (False, log_entry (Log_parse_error file ln msg) s2)
                | Inr (Parse_true s2) \<Rightarrow> Inr (True, s2))))"

subsection \<open>Callers\<close>

text \<open>The script executor calls \<^verbatim>\<open>move_to_next_tag\<close> once per step: \<open>n\<close> calls in a row.\<close>

fun advance :: "nat \<Rightarrow> tag_system \<Rightarrow> fault + tag_system" where
  "advance 0 s = Inr s"
| "advance (Suc n) s = (case move_to_next_tag s of Inl f \<Rightarrow> Inl f | Inr s1 \<Rightarrow> advance n s1)"

subsection \<open>The decoding of a property value, in the words of the spec\<close>

text \<open>The spec (4.1, PropValueBody) on the text between the quotes of a property value: a
  backslash and a quote give a quote, a backslash and \<^verbatim>\<open>n\<close> give a newline, two backslashes
  give one backslash; before any other character the backslash itself is appended and
  the character that follows is not consumed: it is decoded next, as an ordinary
  character. Every other character is appended as it is. This function is written from
  these words, not from the code; the theorem of claim C3 compares the parser with it.\<close>

fun decode_spec :: "string \<Rightarrow> string" where
  "decode_spec [] = []"
| "decode_spec [c] = [c]"
| "decode_spec (c # d # cs) =
     (if c = BSLASH then
        (if d = DQUOTE then DQUOTE # decode_spec cs
         else if d = CHR ''n'' then NL # decode_spec cs
         else if d = BSLASH then BSLASH # decode_spec cs
         else BSLASH # decode_spec (d # cs))
      else c # decode_spec (d # cs))"

text \<open>The texts that can stand between the quotes of a value (the spec's grammar of
  \<^verbatim>\<open>PropValue\<close>): escape sequences and characters other than the quote. The text has no
  \<open>NUL\<close>, which would end the document, and does not end in a backslash that is not
  part of an escape sequence, since that backslash and the closing quote would be one.\<close>

fun value_source :: "string \<Rightarrow> bool" where
  "value_source [] = True"
| "value_source [c] = (c \<noteq> BSLASH \<and> c \<noteq> DQUOTE \<and> c \<noteq> NUL)"
| "value_source (c # d # cs) =
     (if c = BSLASH then
        (if d = DQUOTE \<or> d = CHR ''n'' \<or> d = BSLASH then value_source cs
         else value_source (d # cs))
      else c \<noteq> DQUOTE \<and> c \<noteq> NUL \<and> value_source (d # cs))"

subsection \<open>The final line of a document, in the words of the spec\<close>

text \<open>The spec numbers the lines of a document from 1 and has the line counter advance
  once for every newline character consumed, in any state (4.1); an unterminated tag is
  to fail at the final line of the document (8). The final line of a document is
  therefore one more than the number of its newline characters. This function is written
  from these words, not from the code; the theorem of claim C9 compares the line that the
  parser reports with it.\<close>

definition final_line_spec :: "string \<Rightarrow> int" where
  "final_line_spec doc = 1 + int (length (filter (\<lambda>c. c = NL) doc))"

subsection \<open>Inputs of the examples\<close>

text \<open>\<^verbatim>\<open>tag.h\<close> is not among the sources, so the value of \<open>PROP_MAX\<close> is not known. Theorems
  hold for every value that admits the example; a closed example takes 16, or 2 for a
  tag with \<open>PROP_MAX\<close> properties.

  Two documents on disk: \<^verbatim>\<open>a.txt\<close> holds two empty lines and the tag \<^verbatim>\<open>[a]\<close> on line 3,
  \<^verbatim>\<open>b.txt\<close> holds the tag \<^verbatim>\<open>[b]\<close> on line 1. No other path can be read.\<close>

abbreviation two_documents :: "string \<Rightarrow> string option" where
  "two_documents \<equiv> map_of [(''a.txt'', [NL, NL] @ ''[a]''), (''b.txt'', ''[b]'')]"

text \<open>The property \<^verbatim>\<open> a="1"\<close>, with the blank before it.\<close>

abbreviation one_property :: string where
  "one_property \<equiv> '' a='' @ [DQUOTE] @ ''1'' @ [DQUOTE]"

text \<open>The escape sequence backslash, \<^verbatim>\<open>n\<close>.\<close>

abbreviation escaped_newline :: string where
  "escaped_newline \<equiv> [BSLASH, CHR ''n'']"

section \<open>Evaluation\<close>

text \<open>The definitions a run of the parser unfolds, and \<open>c_string\<close> on a numeral.\<close>

lemmas step_defs = step_def step_init_def step_tagname_def step_propname_def
  step_propvalue_quote_def step_propvalue_body_def append_value_def peek_def
  inc_line_def set_error_def is_blank_def is_space_def is_name_char_def store_def store2_def

lemmas callback_defs = parse_tag_callback_def copy_props.simps strdup_buf_def strdup_def
  upd_tag_def log_entry_def

lemmas parse_defs = parse_tag_document_def parser_init_def system_of_def parse_false_def
  parse_loop.simps

lemmas load_defs = load_tag_file_def cleanup_tag_def cleanup_tags.simps free_def

lemma c_string_numeral:
  "c_string buf i (numeral k) =
     (if buf i = NUL then Inr []
      else (case c_string buf (i + 1) (pred_numeral k) of
              Inl f \<Rightarrow> Inl f
            | Inr str \<Rightarrow> Inr (buf i # str)))"
  by (simp add: numeral_eq_Suc)

section \<open>Properties of the cursor\<close>

lemma advance_in_range:
  "cur_index s + int n \<le> INT_MAX \<Longrightarrow> advance n s = Inr (s\<lparr>cur_index := cur_index s + int n\<rparr>)"
proof (induction n arbitrary: s)
  case 0
  then show ?case by simp
next
  case (Suc n)
  then have step: "move_to_next_tag s = Inr (s\<lparr>cur_index := cur_index s + 1\<rparr>)"
    by (simp add: move_to_next_tag_def)
  from Suc.prems have "cur_index (s\<lparr>cur_index := cur_index s + 1\<rparr>) + int n \<le> INT_MAX"
    by simp
  from Suc.IH [OF this] step show ?case
    by (simp add: add.assoc add.commute)
qed

lemma advance_overflow:
  "INT_MAX < cur_index s + int n \<Longrightarrow> cur_index s \<le> INT_MAX \<Longrightarrow> advance n s = Inl Signed_overflow"
proof (induction n arbitrary: s)
  case 0
  then show ?case by simp
next
  case (Suc n)
  show ?case
  proof (cases "cur_index s = INT_MAX")
    case True
    then show ?thesis by (simp add: move_to_next_tag_def)
  next
    case False
    with Suc.prems have step: "move_to_next_tag s = Inr (s\<lparr>cur_index := cur_index s + 1\<rparr>)"
      by (simp add: move_to_next_tag_def)
    from Suc.prems False
    have "INT_MAX < cur_index (s\<lparr>cur_index := cur_index s + 1\<rparr>) + int n"
      and "cur_index (s\<lparr>cur_index := cur_index s + 1\<rparr>) \<le> INT_MAX"
      by simp_all
    from Suc.IH [OF this] step show ?thesis by simp
  qed
qed

text \<open>
  Claim C10, as the code has it. For every cursor position at or past the store length
  (not only the position equal to it), \<^verbatim>\<open>get_current_tag\<close> returns \<open>NULL\<close> and
  \<^verbatim>\<open>get_tag_line\<close> returns \<open>-1\<close>. \<^verbatim>\<open>move_to_next_tag\<close> adds one to the position whatever
  the store length is. So \<open>n\<close> further calls from a position past the end leave both reads
  defined, with the same answers, as long as the position stays within the range of
  \<^verbatim>\<open>int\<close>.
\<close>

theorem cursor_reads_past_end:
  "(tag_size s \<le> cur_index s \<longrightarrow>
      get_current_tag s = Tag_NULL \<and> get_tag_line s = Inr (- 1)) \<and>
   (cur_index s < INT_MAX \<longrightarrow>
      move_to_next_tag s = Inr (s\<lparr>cur_index := cur_index s + 1\<rparr>)) \<and>
   (tag_size s \<le> cur_index s \<and> cur_index s + int n \<le> INT_MAX \<longrightarrow>
      advance n s = Inr (s\<lparr>cur_index := cur_index s + int n\<rparr>) \<and>
      get_current_tag (s\<lparr>cur_index := cur_index s + int n\<rparr>) = Tag_NULL \<and>
      get_tag_line (s\<lparr>cur_index := cur_index s + int n\<rparr>) = Inr (- 1))"
proof (intro conjI impI)
  assume "tag_size s \<le> cur_index s"
  then show "get_current_tag s = Tag_NULL" and "get_tag_line s = Inr (- 1)"
    by (simp_all add: get_current_tag_def get_tag_line_def)
next
  assume "cur_index s < INT_MAX"
  then show "move_to_next_tag s = Inr (s\<lparr>cur_index := cur_index s + 1\<rparr>)"
    by (simp add: move_to_next_tag_def)
next
  assume a: "tag_size s \<le> cur_index s \<and> cur_index s + int n \<le> INT_MAX"
  then show "advance n s = Inr (s\<lparr>cur_index := cur_index s + int n\<rparr>)"
    by (simp add: advance_in_range)
  from a show "get_current_tag (s\<lparr>cur_index := cur_index s + int n\<rparr>) = Tag_NULL"
    and "get_tag_line (s\<lparr>cur_index := cur_index s + int n\<rparr>) = Inr (- 1)"
    by (simp_all add: get_current_tag_def get_tag_line_def)
qed

text \<open>The theorem at the initial state (an empty store, the cursor at 0) and five calls.\<close>

theorem cursor_reads_past_end_witness:
  "tag_size initial_state \<le> cur_index initial_state \<and>
   get_current_tag initial_state = Tag_NULL \<and> get_tag_line initial_state = Inr (- 1) \<and>
   cur_index initial_state < INT_MAX \<and>
   move_to_next_tag initial_state = Inr (initial_state\<lparr>cur_index := 1\<rparr>) \<and>
   cur_index initial_state + int 5 \<le> INT_MAX \<and>
   advance 5 initial_state = Inr (initial_state\<lparr>cur_index := 5\<rparr>) \<and>
   get_current_tag (initial_state\<lparr>cur_index := 5\<rparr>) = Tag_NULL \<and>
   get_tag_line (initial_state\<lparr>cur_index := 5\<rparr>) = Inr (- 1)"
proof -
  have "cur_index initial_state = 0" and "tag_size initial_state = 0"
    by (simp_all add: initial_state_def)
  with cursor_reads_past_end [of initial_state 5] show ?thesis
    by simp
qed

text \<open>
  Claim C10 as stated fails for "any number" of calls: the cursor is an \<^verbatim>\<open>int\<close>, and the
  call at position \<open>INT_MAX\<close> overflows it. From the initial state that is call number
  \<open>2^31\<close>.
\<close>

theorem cursor_overflow_counterexample:
  "advance 2147483647 initial_state = Inr (initial_state\<lparr>cur_index := INT_MAX\<rparr>) \<and>
   move_to_next_tag (initial_state\<lparr>cur_index := INT_MAX\<rparr>) = Inl Signed_overflow \<and>
   advance 2147483648 initial_state = Inl Signed_overflow"
proof -
  have c: "cur_index initial_state = 0"
    by (simp add: initial_state_def)
  have "advance 2147483647 initial_state = Inr (initial_state\<lparr>cur_index := INT_MAX\<rparr>)"
    using advance_in_range [of initial_state 2147483647] c by simp
  moreover have "move_to_next_tag (initial_state\<lparr>cur_index := INT_MAX\<rparr>) = Inl Signed_overflow"
    by (simp add: move_to_next_tag_def)
  moreover have "advance 2147483648 initial_state = Inl Signed_overflow"
    using advance_overflow [of initial_state 2147483648] c by simp
  ultimately show ?thesis by simp
qed

section \<open>The parser on documents\<close>

subsection \<open>Line numbers\<close>

text \<open>
  Claim C2 fails on the code. The document of the claim, an opening bracket, a newline,
  two blanks and \<^verbatim>\<open>a="1"]\<close>, is parsed with success into one tag, and the line stored with
  the tag is 1, not 2: in \<^verbatim>\<open>ST_TAGNAME\<close> the test that skips white space before the name
  comes before the test that counts a newline, so the newline after the bracket is
  consumed and not counted (the text up to the bracket then is the name of the tag, which
  has no properties). In \<^verbatim>\<open>ST_INIT\<close> the newline is counted: the second document, a newline
  and \<^verbatim>\<open>[a]\<close>, gives line 2.
\<close>

theorem newline_after_bracket_not_counted:
  "(\<exists>s. parse_tag_document PROP_MAX (''['' @ [NL] @ ''  a='' @ [DQUOTE] @ ''1'' @ [DQUOTE] @ '']'')
          initial_state = Inr (Parse_true s) \<and>
        tag_size s = 1 \<and> line (tag s 0) = 1 \<and>
        tag_name (tag s 0) = Ptr (''a='' @ [DQUOTE] @ ''1'' @ [DQUOTE]) \<and>
        prop_count (tag s 0) = 0) \<and>
   (\<exists>s. parse_tag_document PROP_MAX ([NL] @ ''[a]'') initial_state = Inr (Parse_true s) \<and>
        tag_size s = 1 \<and> line (tag s 0) = 2 \<and> tag_name (tag s 0) = Ptr ''a'')"
  by (simp add: parse_defs step_defs callback_defs c_string_numeral initial_state_def
      zero_tag_def)

subsection \<open>The length of a property value\<close>

lemma value_started:
  "0 < PROP_MAX \<Longrightarrow>
   \<exists>st. parse_loop PROP_MAX (parser_init s) (''[a b='' @ [DQUOTE] @ rest) =
          parse_loop PROP_MAX st rest \<and>
        p_state st = ST_PROPVALUE_BODY \<and> p_prop_count st = 0 \<and> p_len st = 0 \<and>
        p_line st = 1 \<and> allocs st = allocs s"
  apply (simp add: parse_loop.simps step_defs parser_init_def)
  apply (rule exI, rule conjI, rule refl, simp)
  done

lemma escapes_appended:
  "p_state st = ST_PROPVALUE_BODY \<Longrightarrow> 0 \<le> p_prop_count st \<Longrightarrow> p_prop_count st < PROP_MAX \<Longrightarrow>
   0 \<le> p_len st \<Longrightarrow> p_len st + int n \<le> PROP_VALUE_MAX \<Longrightarrow>
   \<exists>st'. parse_loop PROP_MAX st (concat (replicate n escaped_newline) @ rest) =
           parse_loop PROP_MAX st' rest \<and>
         p_state st' = ST_PROPVALUE_BODY \<and> p_prop_count st' = p_prop_count st \<and>
         p_len st' = p_len st + int n"
proof (induction n arbitrary: st)
  case 0
  then show ?case by auto
next
  case (Suc n)
  let ?st1 = "st\<lparr>prop_val_buf := (prop_val_buf st)
      (p_prop_count st := (prop_val_buf st (p_prop_count st))(p_len st := NL)),
      p_len := p_len st + 1\<rparr>"
  from Suc.prems have one:
    "parse_loop PROP_MAX st (concat (replicate (Suc n) escaped_newline) @ rest) =
     parse_loop PROP_MAX ?st1 (concat (replicate n escaped_newline) @ rest)"
    by (simp add: parse_loop.simps step_def step_propvalue_body_def append_value_def
        peek_def store2_def)
  from Suc.prems
  have "\<exists>st'. parse_loop PROP_MAX ?st1 (concat (replicate n escaped_newline) @ rest) =
           parse_loop PROP_MAX st' rest \<and>
         p_state st' = ST_PROPVALUE_BODY \<and> p_prop_count st' = p_prop_count ?st1 \<and>
         p_len st' = p_len ?st1 + int n"
    by (intro Suc.IH) simp_all
  with one show ?case by auto
qed

lemma characters_appended:
  "p_state st = ST_PROPVALUE_BODY \<Longrightarrow> 0 \<le> p_prop_count st \<Longrightarrow> p_prop_count st < PROP_MAX \<Longrightarrow>
   0 \<le> p_len st \<Longrightarrow> p_len st + int n \<le> PROP_VALUE_MAX \<Longrightarrow>
   \<exists>st'. parse_loop PROP_MAX st (replicate n (CHR ''x'') @ rest) =
           parse_loop PROP_MAX st' rest \<and>
         p_state st' = ST_PROPVALUE_BODY \<and> p_prop_count st' = p_prop_count st \<and>
         p_len st' = p_len st + int n \<and> p_line st' = p_line st \<and> allocs st' = allocs st"
proof (induction n arbitrary: st)
  case 0
  then show ?case by auto
next
  case (Suc n)
  let ?st1 = "st\<lparr>prop_val_buf := (prop_val_buf st)
      (p_prop_count st := (prop_val_buf st (p_prop_count st))(p_len st := CHR ''x'')),
      p_len := p_len st + 1\<rparr>"
  from Suc.prems have one:
    "parse_loop PROP_MAX st (replicate (Suc n) (CHR ''x'') @ rest) =
     parse_loop PROP_MAX ?st1 (replicate n (CHR ''x'') @ rest)"
    by (simp add: parse_loop.simps step_def step_propvalue_body_def append_value_def
        peek_def store2_def)
  from Suc.prems
  have "\<exists>st'. parse_loop PROP_MAX ?st1 (replicate n (CHR ''x'') @ rest) =
           parse_loop PROP_MAX st' rest \<and>
         p_state st' = ST_PROPVALUE_BODY \<and> p_prop_count st' = p_prop_count ?st1 \<and>
         p_len st' = p_len ?st1 + int n \<and> p_line st' = p_line ?st1 \<and>
         allocs st' = allocs ?st1"
    by (intro Suc.IH) simp_all
  with one show ?case by auto
qed

text \<open>
  Claim C4 fails on the code where the characters come from escape sequences. The first
  document is a tag whose only value is 4097 escaped newlines: the three escape cases of
  \<^verbatim>\<open>ST_PROPVALUE_BODY\<close> store and count a character without comparing \<^verbatim>\<open>len\<close> with
  \<open>PROP_VALUE_MAX\<close>, so escape number 4097 is stored at index 4096 of a row of 4096
  characters; the parser does not return the error "Property value too long.". The
  second document has 4097 plain characters \<^verbatim>\<open>x\<close> as its value, and there the check of
  the last branch answers with that error, at line 1.
\<close>

theorem escapes_pass_value_limit:
  assumes "0 < PROP_MAX"
  shows "parse_tag_document PROP_MAX
      (''[a b='' @ [DQUOTE] @ concat (replicate 4097 escaped_newline) @ [DQUOTE] @ '']'') s =
      Inl Out_of_bounds \<and>
    (\<exists>s'. parse_tag_document PROP_MAX
      (''[a b='' @ [DQUOTE] @ replicate 4097 (CHR ''x'') @ [DQUOTE] @ '']'') initial_state =
      Inr (Parse_false (Ptr ''Property value too long.'') 1 s'))"
proof
  let ?tail = "[DQUOTE] @ '']''"
  obtain st where st: "parse_loop PROP_MAX (parser_init s)
        (''[a b='' @ [DQUOTE] @ concat (replicate 4097 escaped_newline) @ ?tail) =
      parse_loop PROP_MAX st (concat (replicate 4097 escaped_newline) @ ?tail)"
    and st_facts: "p_state st = ST_PROPVALUE_BODY" "p_prop_count st = 0" "p_len st = 0"
    using value_started [OF assms, of s "concat (replicate 4097 escaped_newline) @ ?tail"]
    by auto
  have split: "concat (replicate 4097 escaped_newline) @ ?tail =
      concat (replicate 4096 escaped_newline) @ (escaped_newline @ ?tail)"
    using replicate_add [of 4096 1 escaped_newline] by simp
  obtain st' where
    st': "parse_loop PROP_MAX st (concat (replicate 4096 escaped_newline) @ (escaped_newline @ ?tail)) =
      parse_loop PROP_MAX st' (escaped_newline @ ?tail)"
    and st'_facts: "p_state st' = ST_PROPVALUE_BODY" "p_prop_count st' = 0" "p_len st' = 4096"
    using escapes_appended [of st PROP_MAX 4096 "escaped_newline @ ?tail"] st_facts assms
    by auto
  have "parse_loop PROP_MAX st' (escaped_newline @ ?tail) = Inl Out_of_bounds"
    using st'_facts
    by (simp add: parse_loop.simps step_def step_propvalue_body_def append_value_def
        peek_def store2_def)
  with st st' split show "parse_tag_document PROP_MAX
      (''[a b='' @ [DQUOTE] @ concat (replicate 4097 escaped_newline) @ [DQUOTE] @ '']'') s =
      Inl Out_of_bounds"
    by (simp add: parse_tag_document_def)
next
  let ?tail = "[DQUOTE] @ '']''"
  obtain st where st: "parse_loop PROP_MAX (parser_init initial_state)
        (''[a b='' @ [DQUOTE] @ replicate 4097 (CHR ''x'') @ ?tail) =
      parse_loop PROP_MAX st (replicate 4097 (CHR ''x'') @ ?tail)"
    and st_facts: "p_state st = ST_PROPVALUE_BODY" "p_prop_count st = 0" "p_len st = 0"
      "p_line st = 1" "allocs st = []"
    using value_started [OF assms, of initial_state "replicate 4097 (CHR ''x'') @ ?tail"]
    by (auto simp: initial_state_def)
  have split: "replicate 4097 (CHR ''x'') @ ?tail =
      replicate 4096 (CHR ''x'') @ (CHR ''x'' # ?tail)"
    using replicate_add [of 4096 1 "CHR ''x''"] by simp
  obtain st' where
    st': "parse_loop PROP_MAX st (replicate 4096 (CHR ''x'') @ (CHR ''x'' # ?tail)) =
      parse_loop PROP_MAX st' (CHR ''x'' # ?tail)"
    and st'_facts: "p_state st' = ST_PROPVALUE_BODY" "p_prop_count st' = 0" "p_len st' = 4096"
      "p_line st' = 1" "allocs st' = []"
    using characters_appended [of st PROP_MAX 4096 "CHR ''x'' # ?tail"] st_facts assms
    by auto
  have "parse_loop PROP_MAX st' (CHR ''x'' # ?tail) =
      Inr (Loop_return_false (set_error ''Property value too long.'' st'))"
    using st'_facts
    by (simp add: parse_loop.simps step_def step_propvalue_body_def)
  with st st' split st'_facts show "\<exists>s'. parse_tag_document PROP_MAX
      (''[a b='' @ [DQUOTE] @ replicate 4097 (CHR ''x'') @ [DQUOTE] @ '']'') initial_state =
      Inr (Parse_false (Ptr ''Property value too long.'') 1 s')"
    by (simp add: parse_tag_document_def parse_false_def set_error_def strdup_def)
qed

theorem escapes_pass_value_limit_witness:
  "(0::int) < 16 \<and>
   parse_tag_document 16
      (''[a b='' @ [DQUOTE] @ concat (replicate 4097 escaped_newline) @ [DQUOTE] @ '']'')
      initial_state = Inl Out_of_bounds \<and>
   (\<exists>s'. parse_tag_document 16
      (''[a b='' @ [DQUOTE] @ replicate 4097 (CHR ''x'') @ [DQUOTE] @ '']'') initial_state =
      Inr (Parse_false (Ptr ''Property value too long.'') 1 s'))"
proof -
  have h: "(0::int) < 16" by simp
  from escapes_pass_value_limit [OF h, of initial_state] h show ?thesis
    by blast
qed

subsection \<open>The number of properties of a tag\<close>

lemma property_parsed:
  assumes "p_state st = ST_PROPNAME" and "p_len st = 0"
    and "0 \<le> p_prop_count st" and "p_prop_count st < PROP_MAX"
  shows "\<exists>st'. parse_loop PROP_MAX st (one_property @ rest) = parse_loop PROP_MAX st' rest \<and>
     p_state st' = ST_PROPNAME \<and> p_len st' = 0 \<and> p_prop_count st' = p_prop_count st + 1 \<and>
     p_line st' = p_line st \<and> allocs st' = allocs st \<and> tag_size st' = tag_size st"
  apply (insert assms)
  apply (simp add: parse_loop.simps step_defs)
  apply (rule exI, rule conjI, rule refl, simp)
  done

lemma properties_parsed:
  assumes "p_state st = ST_PROPNAME" and "p_len st = 0"
    and "0 \<le> p_prop_count st" and "p_prop_count st + int n \<le> PROP_MAX"
  shows "\<exists>st'. parse_loop PROP_MAX st (concat (replicate n one_property) @ rest) =
       parse_loop PROP_MAX st' rest \<and>
     p_state st' = ST_PROPNAME \<and> p_len st' = 0 \<and> p_prop_count st' = p_prop_count st + int n \<and>
     p_line st' = p_line st \<and> allocs st' = allocs st \<and> tag_size st' = tag_size st"
  using assms
proof (induction n arbitrary: st)
  case 0
  then show ?case by auto
next
  case (Suc n)
  from Suc.prems obtain st1 where
    one: "parse_loop PROP_MAX st (one_property @ concat (replicate n one_property) @ rest) =
      parse_loop PROP_MAX st1 (concat (replicate n one_property) @ rest)"
    and st1: "p_state st1 = ST_PROPNAME" "p_len st1 = 0" "p_prop_count st1 = p_prop_count st + 1"
      "p_line st1 = p_line st" "allocs st1 = allocs st" "tag_size st1 = tag_size st"
    using property_parsed [of st PROP_MAX "concat (replicate n one_property) @ rest"]
    by auto
  from Suc.prems st1
  have "\<exists>st'. parse_loop PROP_MAX st1 (concat (replicate n one_property) @ rest) =
       parse_loop PROP_MAX st' rest \<and>
     p_state st' = ST_PROPNAME \<and> p_len st' = 0 \<and> p_prop_count st' = p_prop_count st1 + int n \<and>
     p_line st' = p_line st1 \<and> allocs st' = allocs st1 \<and> tag_size st' = tag_size st1"
    by (intro Suc.IH) simp_all
  with one st1 show ?case by auto
qed

text \<open>After \<^verbatim>\<open>[t\<close> and the blank that ends the name, the parser is in \<^verbatim>\<open>ST_PROPNAME\<close>, where
  a blank before a property name is skipped: the blank of the first property may be read
  again.\<close>

lemma tag_name_parsed:
  "0 < PROP_MAX \<Longrightarrow>
   parse_loop PROP_MAX (parser_init s) (''[t'' @ one_property @ rest) =
   parse_loop PROP_MAX
     ((parser_init s)\<lparr>tag_name_buf := (tag_name_buf s)(0 := CHR ''t'', 1 := NUL),
        p_state := ST_PROPNAME\<rparr>) (one_property @ rest)"
  by (simp add: parse_loop.simps step_defs parser_init_def)

text \<open>
  Claim C6 fails on the code. For every positive \<open>PROP_MAX\<close>, the tag \<^verbatim>\<open>t\<close> with exactly
  \<open>PROP_MAX\<close> properties \<^verbatim>\<open>a="1"\<close> and its closing bracket is refused with the error "Too
  many properties." at line 1, and no tag is stored: after the closing quote of property
  number \<open>PROP_MAX\<close> the count equals \<open>PROP_MAX\<close>, and \<^verbatim>\<open>ST_PROPNAME\<close> tests
  \<^verbatim>\<open>prop_count == PROP_MAX\<close> on the next character, whatever it is, before it looks for the
  closing bracket.
\<close>

theorem full_tag_rejected:
  assumes "0 < PROP_MAX"
  shows "\<exists>s'. parse_tag_document PROP_MAX
      (''[t'' @ concat (replicate (nat PROP_MAX) one_property) @ '']'') initial_state =
      Inr (Parse_false (Ptr ''Too many properties.'') 1 s') \<and> tag_size s' = 0"
proof -
  let ?n = "nat PROP_MAX"
  let ?st0 = "(parser_init initial_state)
      \<lparr>tag_name_buf := (tag_name_buf initial_state)(0 := CHR ''t'', 1 := NUL),
       p_state := ST_PROPNAME\<rparr>"
  from assms obtain m where m: "?n = Suc m"
    by (cases ?n) auto
  have "parse_loop PROP_MAX (parser_init initial_state)
          (''[t'' @ concat (replicate ?n one_property) @ '']'') =
        parse_loop PROP_MAX ?st0 (concat (replicate ?n one_property) @ '']'')"
    using tag_name_parsed [OF assms, of initial_state "concat (replicate m one_property) @ '']''"]
    by (simp add: m)
  moreover have st0: "p_state ?st0 = ST_PROPNAME" "p_len ?st0 = 0" "p_prop_count ?st0 = 0"
    "p_line ?st0 = 1" "allocs ?st0 = []" "tag_size ?st0 = 0"
    by (simp_all add: parser_init_def initial_state_def)
  moreover from assms st0 obtain st1 where
    "parse_loop PROP_MAX ?st0 (concat (replicate ?n one_property) @ '']'') =
       parse_loop PROP_MAX st1 '']''"
    and st1: "p_state st1 = ST_PROPNAME" "p_prop_count st1 = PROP_MAX" "p_line st1 = 1"
      "allocs st1 = []" "tag_size st1 = 0"
    using properties_parsed [of ?st0 ?n PROP_MAX "'']''"] by auto
  moreover from st1 have "parse_loop PROP_MAX st1 '']'' =
      Inr (Loop_return_false (set_error ''Too many properties.'' st1))"
    by (simp add: parse_loop.simps step_def step_propname_def)
  ultimately have "parse_tag_document PROP_MAX
      (''[t'' @ concat (replicate ?n one_property) @ '']'') initial_state =
      Inr (parse_false (set_error ''Too many properties.'' st1))"
    by (simp add: parse_tag_document_def)
  with st1 show ?thesis
    by (simp add: parse_false_def set_error_def strdup_def system_of_def)
qed

text \<open>For \<open>PROP_MAX = 2\<close>: the tag \<^verbatim>\<open>[t a="1" a="1"]\<close> is refused.\<close>

theorem full_tag_rejected_witness:
  "(0::int) < 2 \<and>
   (\<exists>s'. parse_tag_document 2 (''[t'' @ one_property @ one_property @ '']'') initial_state =
      Inr (Parse_false (Ptr ''Too many properties.'') 1 s') \<and> tag_size s' = 0)"
  using full_tag_rejected [of 2] by (simp add: numeral_2_eq_2)

subsection \<open>Escape sequences\<close>

text \<open>\<^verbatim>\<open>strdup\<close> reads the characters that have been stored, when a \<open>NUL\<close> follows them
  within the array.\<close>

lemma c_string_read:
  "\<forall>j < length xs. buf (i + int j) = xs ! j \<Longrightarrow> NUL \<notin> set xs \<Longrightarrow>
   buf (i + int (length xs)) = NUL \<Longrightarrow> length xs < m \<Longrightarrow> c_string buf i m = Inr xs"
proof (induction xs arbitrary: i m)
  case Nil
  then obtain m' where "m = Suc m'" by (cases m) auto
  with Nil show ?case by simp
next
  case (Cons x xs)
  then obtain m' where m: "m = Suc m'" by (cases m) auto
  from Cons.prems(1) have x: "buf i = x" by force
  have "\<forall>j < length xs. buf (i + 1 + int j) = xs ! j"
  proof (intro allI impI)
    fix j assume "j < length xs"
    with Cons.prems(1) have "buf (i + int (Suc j)) = (x # xs) ! Suc j" by force
    then show "buf (i + 1 + int j) = xs ! j" by (simp add: algebra_simps)
  qed
  moreover from Cons.prems(3) have "buf (i + 1 + int (length xs)) = NUL"
    by (simp add: algebra_simps)
  ultimately have "c_string buf (i + 1) m' = Inr xs"
    using Cons.prems m by (intro Cons.IH) auto
  with x m Cons.prems(2) show ?case by auto
qed

lemma decode_spec_no_NUL: "value_source w \<Longrightarrow> NUL \<notin> set (decode_spec w)"
  by (induction w rule: decode_spec.induct) (auto split: if_splits)

lemma value_parsed:
  "value_source w \<Longrightarrow> p_state st = ST_PROPVALUE_BODY \<Longrightarrow> 0 \<le> p_prop_count st \<Longrightarrow>
   p_prop_count st < PROP_MAX \<Longrightarrow> 0 \<le> p_len st \<Longrightarrow>
   p_len st + int (length (decode_spec w)) < PROP_VALUE_MAX \<Longrightarrow>
   \<exists>b. parse_loop PROP_MAX st (w @ DQUOTE # rest) =
         parse_loop PROP_MAX
           (st\<lparr>prop_val_buf := b, p_prop_count := p_prop_count st + 1,
               p_state := ST_PROPNAME, p_len := 0\<rparr>) rest \<and>
       (\<forall>i. 0 \<le> i \<and> i < p_len st \<longrightarrow> b (p_prop_count st) i = prop_val_buf st (p_prop_count st) i) \<and>
       (\<forall>j < length (decode_spec w).
          b (p_prop_count st) (p_len st + int j) = decode_spec w ! j) \<and>
       b (p_prop_count st) (p_len st + int (length (decode_spec w))) = NUL"
proof (induction "length w" arbitrary: w st rule: less_induct)
  case less
  note prems = less.prems
  show ?case
  proof (cases w rule: decode_spec.cases)
  case 1
  with prems show ?thesis
    apply (simp add: parse_loop.simps step_def step_propvalue_body_def store2_def)
    apply (rule exI, rule conjI, rule refl, simp)
    done
next
  case (2 c)
  let ?k = "p_prop_count st"
  let ?st1 = "st\<lparr>prop_val_buf := (prop_val_buf st)(?k := (prop_val_buf st ?k)(p_len st := c)),
      p_len := p_len st + 1\<rparr>"
  let ?b = "(prop_val_buf ?st1)(?k := (prop_val_buf ?st1 ?k)(p_len ?st1 := NUL))"
  from prems 2 have
    "parse_loop PROP_MAX st ([c] @ DQUOTE # rest) =
     parse_loop PROP_MAX (st\<lparr>prop_val_buf := ?b, p_prop_count := ?k + 1,
               p_state := ST_PROPNAME, p_len := 0\<rparr>) rest"
    by (simp add: parse_loop.simps step_def step_propvalue_body_def append_value_def store2_def)
  moreover have "\<forall>i. 0 \<le> i \<and> i < p_len st \<longrightarrow> ?b ?k i = prop_val_buf st ?k i"
    by simp
  moreover have "\<forall>j < length (decode_spec [c]). ?b ?k (p_len st + int j) = decode_spec [c] ! j"
    by simp
  moreover have "?b ?k (p_len st + int (length (decode_spec [c]))) = NUL"
    by simp
  ultimately show ?thesis unfolding 2 by blast
next
  case (3 c d cs)
  let ?k = "p_prop_count st"
  define x where "x = hd (decode_spec (c # d # cs))"
  define w' where "w' = (if c = BSLASH \<and> (d = DQUOTE \<or> d = CHR ''n'' \<or> d = BSLASH) then cs else d # cs)"
  let ?st1 = "st\<lparr>prop_val_buf := (prop_val_buf st)(?k := (prop_val_buf st ?k)(p_len st := x)),
      p_len := p_len st + 1\<rparr>"
  have dec: "decode_spec (c # d # cs) = x # decode_spec w'"
    by (simp add: x_def w'_def)
  from prems(1) 3 have src: "value_source w'"
    by (auto simp: w'_def split: if_splits)
  have shorter: "length w' < length w"
    by (simp add: w'_def 3)
  from prems 3 have one: "parse_loop PROP_MAX st ((c # d # cs) @ DQUOTE # rest) =
      parse_loop PROP_MAX ?st1 (w' @ DQUOTE # rest)"
    by (auto simp: parse_loop.simps step_def step_propvalue_body_def append_value_def
        store2_def peek_def x_def w'_def)
  have "\<exists>b. parse_loop PROP_MAX ?st1 (w' @ DQUOTE # rest) =
         parse_loop PROP_MAX
           (?st1\<lparr>prop_val_buf := b, p_prop_count := p_prop_count ?st1 + 1,
               p_state := ST_PROPNAME, p_len := 0\<rparr>) rest \<and>
       (\<forall>i. 0 \<le> i \<and> i < p_len ?st1 \<longrightarrow> b (p_prop_count ?st1) i = prop_val_buf ?st1 (p_prop_count ?st1) i) \<and>
       (\<forall>j < length (decode_spec w').
          b (p_prop_count ?st1) (p_len ?st1 + int j) = decode_spec w' ! j) \<and>
       b (p_prop_count ?st1) (p_len ?st1 + int (length (decode_spec w'))) = NUL"
    using prems src dec 3 by (intro less.hyps [OF shorter]) simp_all
  then obtain b where
    b1: "parse_loop PROP_MAX ?st1 (w' @ DQUOTE # rest) =
         parse_loop PROP_MAX
           (?st1\<lparr>prop_val_buf := b, p_prop_count := p_prop_count ?st1 + 1,
               p_state := ST_PROPNAME, p_len := 0\<rparr>) rest"
    and b2: "\<forall>i. 0 \<le> i \<and> i < p_len st + 1 \<longrightarrow> b ?k i = prop_val_buf ?st1 ?k i"
    and b3: "\<forall>j < length (decode_spec w'). b ?k (p_len st + 1 + int j) = decode_spec w' ! j"
    and b4: "b ?k (p_len st + 1 + int (length (decode_spec w'))) = NUL"
    by auto
  have "parse_loop PROP_MAX st ((c # d # cs) @ DQUOTE # rest) =
      parse_loop PROP_MAX (st\<lparr>prop_val_buf := b, p_prop_count := ?k + 1,
               p_state := ST_PROPNAME, p_len := 0\<rparr>) rest"
    using one b1 by simp
  moreover have "\<forall>i. 0 \<le> i \<and> i < p_len st \<longrightarrow> b ?k i = prop_val_buf st ?k i"
    using b2 by auto
  moreover have "\<forall>j < length (decode_spec (c # d # cs)).
      b ?k (p_len st + int j) = decode_spec (c # d # cs) ! j"
  proof (intro allI impI)
    fix j assume j: "j < length (decode_spec (c # d # cs))"
    show "b ?k (p_len st + int j) = decode_spec (c # d # cs) ! j"
    proof (cases j)
      case 0
      with b2 prems(5) show ?thesis by (simp add: dec 3 del: decode_spec.simps)
    next
      case (Suc j')
      with j b3 have "b ?k (p_len st + 1 + int j') = decode_spec w' ! j'"
        by (simp add: dec del: decode_spec.simps)
      with Suc show ?thesis by (simp add: dec algebra_simps del: decode_spec.simps)
    qed
  qed
  moreover have "b ?k (p_len st + int (length (decode_spec (c # d # cs)))) = NUL"
    using b4 by (simp add: dec algebra_simps del: decode_spec.simps)
  ultimately show ?thesis unfolding 3 by blast
qed
qed

lemma single_property_tag_closed:
  assumes "p_state st = ST_PROPNAME" and "p_len st = 0" and "p_prop_count st = 1"
    and "1 < PROP_MAX" and "tag_size st = 0" and "allocs st = []"
    and "c_string (tag_name_buf st) 0 128 = Inr nm"
    and "c_string (prop_name_buf st 0) 0 128 = Inr pn"
    and "c_string (prop_val_buf st 0) 0 4096 = Inr pv"
  shows "\<exists>st'. parse_loop PROP_MAX st '']'' = Inr (Loop_end st') \<and> p_state st' = ST_INIT \<and>
    tag_size st' = 1 \<and> tag_name (tag st' 0) = Ptr nm \<and> prop_count (tag st' 0) = 1 \<and>
    prop_name (tag st' 0) 0 = Ptr pn \<and> prop_value (tag st' 0) 0 = Ptr pv"
  using assms
  by (simp add: parse_loop.simps step_def step_propname_def parse_tag_callback_def
      copy_props.simps strdup_buf_def strdup_def upd_tag_def)

lemma single_property_started:
  "0 < PROP_MAX \<Longrightarrow>
   parse_loop PROP_MAX (parser_init initial_state) (''[t v='' @ [DQUOTE] @ rest) =
   parse_loop PROP_MAX
     ((parser_init initial_state)
        \<lparr>tag_name_buf := (\<lambda>i. NUL)(0 := CHR ''t'', 1 := NUL),
         prop_name_buf := (\<lambda>r i. NUL)(0 := (\<lambda>i. NUL)(0 := CHR ''v'', 1 := NUL)),
         p_state := ST_PROPVALUE_BODY\<rparr>) rest"
  by (simp add: parse_loop.simps step_defs parser_init_def initial_state_def)

text \<open>
  Claim C3. For every text \<open>w\<close> that can stand between the quotes of a value and whose
  decoding leaves room for the terminating \<open>NUL\<close> in the row of \<open>PROP_VALUE_MAX\<close>
  characters, the document \<^verbatim>\<open>[t v="w"]\<close> is parsed with success into one tag \<^verbatim>\<open>t\<close> whose
  property \<^verbatim>\<open>v\<close> has the value \<open>decode_spec w\<close>: the escape sequences of
  \<^verbatim>\<open>ST_PROPVALUE_BODY\<close> decode as the spec says. (\<open>PROP_MAX\<close> is at least 2, see claim C6.)
\<close>

theorem escape_decoding:
  assumes "1 < PROP_MAX" and "value_source w"
    and "int (length (decode_spec w)) < PROP_VALUE_MAX"
  shows "\<exists>s. parse_tag_document PROP_MAX (''[t v='' @ [DQUOTE] @ w @ [DQUOTE] @ '']'')
        initial_state = Inr (Parse_true s) \<and>
      tag_size s = 1 \<and> tag_name (tag s 0) = Ptr ''t'' \<and> prop_count (tag s 0) = 1 \<and>
      prop_name (tag s 0) 0 = Ptr ''v'' \<and> prop_value (tag s 0) 0 = Ptr (decode_spec w)"
proof -
  let ?st = "(parser_init initial_state)
        \<lparr>tag_name_buf := (\<lambda>i. NUL)(0 := CHR ''t'', 1 := NUL),
         prop_name_buf := (\<lambda>r i. NUL)(0 := (\<lambda>i. NUL)(0 := CHR ''v'', 1 := NUL)),
         p_state := ST_PROPVALUE_BODY\<rparr>"
  have st: "p_state ?st = ST_PROPVALUE_BODY" "p_prop_count ?st = 0" "p_len ?st = 0"
    by (simp_all add: parser_init_def)
  from assms have start: "parse_loop PROP_MAX (parser_init initial_state)
      (''[t v='' @ [DQUOTE] @ w @ [DQUOTE] @ '']'') = parse_loop PROP_MAX ?st (w @ DQUOTE # '']'')"
    using single_property_started [of PROP_MAX "w @ [DQUOTE] @ '']''"] by simp
  from assms st obtain b where
    run: "parse_loop PROP_MAX ?st (w @ DQUOTE # '']'') =
       parse_loop PROP_MAX (?st\<lparr>prop_val_buf := b, p_prop_count := 1,
               p_state := ST_PROPNAME, p_len := 0\<rparr>) '']''"
    and chars: "\<forall>j < length (decode_spec w). b 0 (int j) = decode_spec w ! j"
    and nul: "b 0 (int (length (decode_spec w))) = NUL"
    using value_parsed [of w ?st PROP_MAX "'']''"] by auto
  let ?st1 = "?st\<lparr>prop_val_buf := b, p_prop_count := 1, p_state := ST_PROPNAME, p_len := 0\<rparr>"
  from assms(3) have "length (decode_spec w) < 4096" by simp
  with chars nul decode_spec_no_NUL [OF assms(2)]
  have val: "c_string (prop_val_buf ?st1 0) 0 4096 = Inr (decode_spec w)"
    by (intro c_string_read) simp_all
  have nm: "c_string (tag_name_buf ?st1) 0 128 = Inr ''t''"
    and pn: "c_string (prop_name_buf ?st1 0) 0 128 = Inr ''v''"
    by (simp_all add: c_string_numeral)
  have facts: "p_state ?st1 = ST_PROPNAME" "p_len ?st1 = 0" "p_prop_count ?st1 = 1"
    "tag_size ?st1 = 0" "allocs ?st1 = []"
    by (simp_all add: parser_init_def initial_state_def)
  from single_property_tag_closed [OF facts(1-3) assms(1) facts(4,5) nm pn val]
  obtain st' where "parse_loop PROP_MAX ?st1 '']'' = Inr (Loop_end st')"
    and "p_state st' = ST_INIT" and "tag_size st' = 1" and "tag_name (tag st' 0) = Ptr ''t''"
    and "prop_count (tag st' 0) = 1" and "prop_name (tag st' 0) 0 = Ptr ''v''"
    and "prop_value (tag st' 0) 0 = Ptr (decode_spec w)"
    by blast
  with start run show ?thesis
    by (simp add: parse_tag_document_def system_of_def)
qed

text \<open>The two values of the claim: \<^verbatim>\<open>a\"b\nc\\d\<close> decodes to \<^verbatim>\<open>a"b\<close>, a newline and \<^verbatim>\<open>c\d\<close>;
  \<^verbatim>\<open>a\xb\<close> decodes to the four characters \<^verbatim>\<open>a\<close>, backslash, \<^verbatim>\<open>x\<close>, \<^verbatim>\<open>b\<close>.\<close>

theorem escape_decoding_witness:
  "(1::int) < 16 \<and>
   value_source (''a'' @ [BSLASH, DQUOTE] @ ''b'' @ [BSLASH] @ ''nc'' @ [BSLASH, BSLASH] @ ''d'') \<and>
   decode_spec (''a'' @ [BSLASH, DQUOTE] @ ''b'' @ [BSLASH] @ ''nc'' @ [BSLASH, BSLASH] @ ''d'') =
     ''a'' @ [DQUOTE] @ ''b'' @ [NL] @ ''c'' @ [BSLASH] @ ''d'' \<and>
   (\<exists>s. parse_tag_document 16
          (''[t v='' @ [DQUOTE] @
           (''a'' @ [BSLASH, DQUOTE] @ ''b'' @ [BSLASH] @ ''nc'' @ [BSLASH, BSLASH] @ ''d'') @
           [DQUOTE] @ '']'') initial_state = Inr (Parse_true s) \<and>
        prop_value (tag s 0) 0 = Ptr (''a'' @ [DQUOTE] @ ''b'' @ [NL] @ ''c'' @ [BSLASH] @ ''d'')) \<and>
   value_source (''a'' @ [BSLASH] @ ''xb'') \<and>
   decode_spec (''a'' @ [BSLASH] @ ''xb'') = [CHR ''a'', BSLASH, CHR ''x'', CHR ''b''] \<and>
   (\<exists>s. parse_tag_document 16
          (''[t v='' @ [DQUOTE] @ (''a'' @ [BSLASH] @ ''xb'') @ [DQUOTE] @ '']'') initial_state =
          Inr (Parse_true s) \<and>
        prop_value (tag s 0) 0 = Ptr [CHR ''a'', BSLASH, CHR ''x'', CHR ''b''])"
proof -
  let ?w1 = "''a'' @ [BSLASH, DQUOTE] @ ''b'' @ [BSLASH] @ ''nc'' @ [BSLASH, BSLASH] @ ''d''"
  let ?w2 = "''a'' @ [BSLASH] @ ''xb''"
  have h: "(1::int) < 16" by simp
  have v1: "value_source ?w1" and v2: "value_source ?w2" by simp_all
  have d1: "decode_spec ?w1 = ''a'' @ [DQUOTE] @ ''b'' @ [NL] @ ''c'' @ [BSLASH] @ ''d''"
    and d2: "decode_spec ?w2 = [CHR ''a'', BSLASH, CHR ''x'', CHR ''b'']" by simp_all
  have l1: "int (length (decode_spec ?w1)) < PROP_VALUE_MAX"
    and l2: "int (length (decode_spec ?w2)) < PROP_VALUE_MAX" by simp_all
  from escape_decoding [OF h v1 l1] escape_decoding [OF h v2 l2] v1 v2 d1 d2
  show ?thesis by (simp del: decode_spec.simps value_source.simps append.simps) blast
qed

subsection \<open>The end of the document\<close>

text \<open>After the loop, \<^verbatim>\<open>parse_tag_document\<close> returns \<^verbatim>\<open>true\<close> in \<^verbatim>\<open>ST_INIT\<close>; in every other
  state it returns \<^verbatim>\<open>false\<close> with a copy of the message "Unexpected EOF" (\<open>NULL\<close> when
  \<^verbatim>\<open>strdup\<close> finds no memory) and the value of \<^verbatim>\<open>line\<close>.\<close>

lemma end_of_loop:
  assumes "parse_loop PROP_MAX (parser_init s) doc = Inr (Loop_end st)"
  shows "p_state st = ST_INIT \<Longrightarrow>
      parse_tag_document PROP_MAX doc s = Inr (Parse_true (system_of st))"
    and "p_state st \<noteq> ST_INIT \<Longrightarrow>
      \<exists>m s'. parse_tag_document PROP_MAX doc s = Inr (Parse_false m (p_line st) s') \<and>
        (m = Ptr ''Unexpected EOF'' \<or> m = NULL) \<and> (allocs st = [] \<longrightarrow> m = Ptr ''Unexpected EOF'')"
  using assms
  by (auto simp: parse_tag_document_def parse_false_def set_error_def strdup_def
      split: list.splits)

text \<open>Whether \<^verbatim>\<open>line\<close> is the final line of the document depends on where its newlines
  stand. \<^verbatim>\<open>ST_INIT\<close> counts every newline. \<^verbatim>\<open>ST_TAGNAME\<close> skips the white space before the
  first character of the name, newlines too, and the test that skips stands before the
  test that counts. From there on the characters of a name are stored.\<close>

lemma newlines_counted:
  "p_state st = ST_INIT \<Longrightarrow> p_line st + int k \<le> INT_MAX \<Longrightarrow>
   parse_loop PROP_MAX st (replicate k NL @ rest) =
   parse_loop PROP_MAX (st\<lparr>p_line := p_line st + int k\<rparr>) rest"
proof (induction k arbitrary: st)
  case 0
  then show ?case by simp
next
  case (Suc k)
  from Suc.prems have "parse_loop PROP_MAX st (replicate (Suc k) NL @ rest) =
      parse_loop PROP_MAX (st\<lparr>p_line := p_line st + 1\<rparr>) (replicate k NL @ rest)"
    by (simp add: parse_loop.simps step_def step_init_def inc_line_def)
  also from Suc.prems have "\<dots> =
      parse_loop PROP_MAX (st\<lparr>p_line := p_line st + 1, p_line := p_line st + 1 + int k\<rparr>) rest"
    using Suc.IH [of "st\<lparr>p_line := p_line st + 1\<rparr>"] by simp
  finally show ?case by (simp add: algebra_simps)
qed

lemma newlines_skipped:
  "p_state st = ST_TAGNAME \<Longrightarrow> p_len st = 0 \<Longrightarrow>
   parse_loop PROP_MAX st (replicate j NL @ rest) = parse_loop PROP_MAX st rest"
  by (induction j) (simp_all add: parse_loop.simps step_def step_tagname_def is_space_def)

lemma name_stored:
  "p_state st = ST_TAGNAME \<Longrightarrow> 0 \<le> p_len st \<Longrightarrow> p_len st + int (length nm) \<le> TAG_NAME_MAX \<Longrightarrow>
   \<forall>c \<in> set nm. \<not> is_space c \<and> c \<noteq> CHR '']'' \<and> c \<noteq> NUL \<Longrightarrow>
   \<exists>b. parse_loop PROP_MAX st (nm @ rest) =
        parse_loop PROP_MAX (st\<lparr>tag_name_buf := b, p_len := p_len st + int (length nm)\<rparr>) rest"
proof (induction nm arbitrary: st)
  case Nil
  have "st = st\<lparr>tag_name_buf := tag_name_buf st, p_len := p_len st\<rparr>" by simp
  then show ?case by (intro exI [of _ "tag_name_buf st"]) simp
next
  case (Cons c nm)
  let ?st1 = "st\<lparr>tag_name_buf := (tag_name_buf st)(p_len st := c), p_len := p_len st + 1\<rparr>"
  from Cons.prems have one: "parse_loop PROP_MAX st ((c # nm) @ rest) =
      parse_loop PROP_MAX ?st1 (nm @ rest)"
    by (simp add: parse_loop.simps step_def step_tagname_def store_def is_space_def)
  from Cons.prems have "\<exists>b. parse_loop PROP_MAX ?st1 (nm @ rest) =
        parse_loop PROP_MAX (?st1\<lparr>tag_name_buf := b, p_len := p_len ?st1 + int (length nm)\<rparr>) rest"
    by (intro Cons.IH) simp_all
  then obtain b where "parse_loop PROP_MAX ?st1 (nm @ rest) =
        parse_loop PROP_MAX (st\<lparr>tag_name_buf := b, p_len := p_len st + int (length (c # nm))\<rparr>) rest"
    by (auto simp: algebra_simps)
  with one show ?case by auto
qed

lemma final_line_of_unterminated_tag:
  assumes "\<forall>c \<in> set nm. \<not> is_space c \<and> c \<noteq> CHR '']'' \<and> c \<noteq> NUL"
  shows "final_line_spec (replicate k NL @ ''['' @ replicate j NL @ nm) = 1 + int k + int j"
proof -
  from assms have "filter (\<lambda>c. c = NL) nm = []"
    by (auto simp: filter_empty_conv is_space_def)
  then show ?thesis by (simp add: final_line_spec_def)
qed

text \<open>\<^verbatim>\<open>ST_PROPVALUE_BODY\<close> has no \<^verbatim>\<open>line++\<close> at all: a document that ends inside a value
  two newlines long, on its third line, fails at line 1.\<close>

lemma newlines_in_value_not_counted:
  "0 < PROP_MAX \<Longrightarrow>
   final_line_spec (''[a x='' @ [DQUOTE, NL, NL] @ ''v'') = 3 \<and>
   (\<exists>s'. parse_tag_document PROP_MAX (''[a x='' @ [DQUOTE, NL, NL] @ ''v'') initial_state =
      Inr (Parse_false (Ptr ''Unexpected EOF'') 1 s'))"
  by (simp add: final_line_spec_def parse_defs step_defs callback_defs c_string_numeral
      initial_state_def zero_tag_def)

text \<open>
  Claim C9 fails on the code. A document that ends in a state other than \<^verbatim>\<open>ST_INIT\<close> does
  fail with the message "Unexpected EOF", but the line reported with it is not always the
  final line of the document. Take any unterminated document that consists of \<open>k\<close>
  newlines, an opening bracket, \<open>j\<close> newlines and a tag name \<open>nm\<close> of at most 128
  characters, none of them white space, a closing bracket or \<open>NUL\<close>. Its final line is
  \<open>1 + k + j\<close>. The parser fails with "Unexpected EOF" at line \<open>1 + k\<close>: the \<open>k\<close> newlines
  before the bracket are counted in \<^verbatim>\<open>ST_INIT\<close>, the \<open>j\<close> newlines between the bracket and the
  name are consumed in \<^verbatim>\<open>ST_TAGNAME\<close> and none of them is counted. With \<open>j = 0\<close>, as in
  \<^verbatim>\<open>[say\<close>, the line reported is the final line; with \<open>j > 0\<close>, as in the document of an
  opening bracket, a newline and \<^verbatim>\<open>say\<close>, it is not.
\<close>

theorem end_of_input_line_not_final:
  assumes "int k < INT_MAX" and "length nm \<le> 128"
    and "\<forall>c \<in> set nm. \<not> is_space c \<and> c \<noteq> CHR '']'' \<and> c \<noteq> NUL"
  shows "final_line_spec (replicate k NL @ ''['' @ replicate j NL @ nm) = 1 + int k + int j \<and>
    (\<exists>s'. parse_tag_document PROP_MAX (replicate k NL @ ''['' @ replicate j NL @ nm)
            initial_state =
          Inr (Parse_false (Ptr ''Unexpected EOF'') (1 + int k) s'))"
proof
  from assms(3)
  show "final_line_spec (replicate k NL @ ''['' @ replicate j NL @ nm) = 1 + int k + int j"
    by (rule final_line_of_unterminated_tag)
next
  let ?doc = "replicate k NL @ ''['' @ replicate j NL @ nm"
  let ?st0 = "parser_init initial_state"
  let ?st1 = "?st0\<lparr>p_line := 1 + int k\<rparr>"
  let ?st2 = "?st1\<lparr>p_state := ST_TAGNAME, p_len := 0\<rparr>"
  from assms(1) have "parse_loop PROP_MAX ?st0 ?doc =
      parse_loop PROP_MAX ?st1 (''['' @ replicate j NL @ nm)"
    using newlines_counted [of ?st0 k PROP_MAX "''['' @ replicate j NL @ nm"]
    by (simp add: parser_init_def)
  also have "\<dots> = parse_loop PROP_MAX ?st2 (replicate j NL @ nm @ [])"
    by (simp add: parse_loop.simps step_def step_init_def parser_init_def)
  also have "\<dots> = parse_loop PROP_MAX ?st2 (nm @ [])"
    by (rule newlines_skipped) (simp_all add: parser_init_def)
  finally have a: "parse_loop PROP_MAX ?st0 ?doc = parse_loop PROP_MAX ?st2 (nm @ [])" .
  from assms(2,3) obtain b where b: "parse_loop PROP_MAX ?st2 (nm @ []) =
      parse_loop PROP_MAX (?st2\<lparr>tag_name_buf := b, p_len := p_len ?st2 + int (length nm)\<rparr>) []"
    using name_stored [of ?st2 nm PROP_MAX "[]"] by (auto simp: parser_init_def)
  from a b show "\<exists>s'. parse_tag_document PROP_MAX ?doc initial_state =
      Inr (Parse_false (Ptr ''Unexpected EOF'') (1 + int k) s')"
    by (simp add: parse_tag_document_def parse_loop.simps parse_false_def set_error_def
        strdup_def parser_init_def initial_state_def)
qed

text \<open>The document of an opening bracket, a newline and \<^verbatim>\<open>say\<close> ends on line 2 and fails
  at line 1; \<^verbatim>\<open>[say\<close> ends on line 1 and fails at line 1; a newline and \<^verbatim>\<open>[say\<close> end on
  line 2 and fail at line 2.\<close>

theorem end_of_input_line_not_final_witness:
  "int 0 < INT_MAX \<and> int 1 < INT_MAX \<and> length ''say'' \<le> 128 \<and>
   \<not> is_space (CHR ''s'') \<and> \<not> is_space (CHR ''a'') \<and> \<not> is_space (CHR ''y'') \<and>
   final_line_spec (''['' @ [NL] @ ''say'') = 2 \<and>
   (\<exists>s'. parse_tag_document 16 (''['' @ [NL] @ ''say'') initial_state =
        Inr (Parse_false (Ptr ''Unexpected EOF'') 1 s')) \<and>
   final_line_spec ''[say'' = 1 \<and>
   (\<exists>s'. parse_tag_document 16 ''[say'' initial_state =
        Inr (Parse_false (Ptr ''Unexpected EOF'') 1 s')) \<and>
   final_line_spec ([NL] @ ''[say'') = 2 \<and>
   (\<exists>s'. parse_tag_document 16 ([NL] @ ''[say'') initial_state =
        Inr (Parse_false (Ptr ''Unexpected EOF'') 2 s'))"
proof -
  have sp: "\<not> is_space (CHR ''s'')" "\<not> is_space (CHR ''a'')" "\<not> is_space (CHR ''y'')"
    by (simp_all add: is_space_def)
  from end_of_input_line_not_final [of 0 "''say''" 1 16]
    end_of_input_line_not_final [of 0 "''say''" 0 16]
    end_of_input_line_not_final [of 1 "''say''" 0 16] sp
  show ?thesis by simp
qed

section \<open>Loading a document\<close>

subsection \<open>What parsing and cleaning leave alone\<close>

text \<open>Parsing never writes the cursor, never lowers \<^verbatim>\<open>tag_size\<close> and never writes a record
  below \<^verbatim>\<open>tag_size\<close>: the callback writes \<^verbatim>\<open>tag[tag_size]\<close> only, and counts it first.
  \<^verbatim>\<open>cleanup_tag\<close> sets the cursor to 0.\<close>

lemma upd_tag_fields:
  "cur_index (upd_tag k f s) = cur_index s" "tag_size (upd_tag k f s) = tag_size s"
  "tag (upd_tag k f s) j = (if j = k then f (tag s k) else tag s j)"
  by (simp_all add: upd_tag_def)

lemma log_entry_fields:
  "cur_index (log_entry e s) = cur_index s" "tag_size (log_entry e s) = tag_size s"
  "tag (log_entry e s) = tag s"
  by (simp_all add: log_entry_def)

lemma strdup_fields:
  "strdup str s = (p, s') \<Longrightarrow> cur_index s' = cur_index s \<and> tag_size s' = tag_size s \<and> tag s' = tag s"
  by (auto simp: strdup_def split: list.splits)

lemma strdup_buf_fields:
  "strdup_buf buf cap s = Inr (p, s') \<Longrightarrow>
   cur_index s' = cur_index s \<and> tag_size s' = tag_size s \<and> tag s' = tag s"
  by (auto simp: strdup_buf_def split: sum.splits dest: strdup_fields)

lemmas frame_simps = upd_tag_fields log_entry_fields

lemma copy_props_unfold:
  assumes "copy_props PROP_MAX names vals props k i s = Inr (ok, s')" and "i < props"
  shows "\<exists>s4. (s' = s4 \<or> copy_props PROP_MAX names vals props k (i + 1) s4 = Inr (ok, s')) \<and>
     cur_index s4 = cur_index s \<and> tag_size s4 = tag_size s \<and>
     (\<forall>j. j \<noteq> k \<longrightarrow> tag s4 j = tag s j)"
proof -
  from assms obtain ns p s1 where
    ns: "names = Some ns" "strdup_buf (ns i) PROP_NAME_MAX s = Inr (p, s1)"
    by (subst (asm) copy_props.simps) (auto split: option.splits if_splits sum.splits)
  define s2 where "s2 = upd_tag k (\<lambda>t. t\<lparr>prop_name := (prop_name t)(i := p)\<rparr>) s1"
  from strdup_buf_fields [OF ns(2)] have s2: "cur_index s2 = cur_index s"
    "tag_size s2 = tag_size s" "\<forall>j. j \<noteq> k \<longrightarrow> tag s2 j = tag s j"
    by (simp_all add: s2_def frame_simps)
  show ?thesis
  proof (cases "p = NULL")
    case True
    with assms ns have "s' = log_entry Log_out_of_memory s2"
      by (subst (asm) copy_props.simps) (auto simp: s2_def split: if_splits)
    with s2 show ?thesis by (intro exI [of _ s']) (simp add: frame_simps)
  next
    case False
    with assms ns obtain vs q s3 where
      vs: "vals = Some vs" "strdup_buf (vs i) PROP_VALUE_MAX s2 = Inr (q, s3)"
      by (subst (asm) copy_props.simps)
        (auto simp: s2_def split: option.splits if_splits sum.splits)
    define s4 where "s4 = upd_tag k (\<lambda>t. t\<lparr>prop_value := (prop_value t)(i := q)\<rparr>) s3"
    from strdup_buf_fields [OF vs(2)] s2 have s4: "cur_index s4 = cur_index s"
      "tag_size s4 = tag_size s" "\<forall>j. j \<noteq> k \<longrightarrow> tag s4 j = tag s j"
      by (simp_all add: s4_def frame_simps)
    show ?thesis
    proof (cases "q = NULL")
      case True
      with assms ns vs False have "s' = log_entry Log_out_of_memory s4"
        by (subst (asm) copy_props.simps) (auto simp: s2_def s4_def split: if_splits)
      with s4 show ?thesis by (intro exI [of _ s']) (simp add: frame_simps)
    next
      case q: False
      with assms ns vs False
      have "copy_props PROP_MAX names vals props k (i + 1) s4 = Inr (ok, s')"
        by (subst (asm) copy_props.simps) (auto simp: s2_def s4_def split: if_splits)
      with s4 show ?thesis by blast
    qed
  qed
qed

lemma copy_props_frame:
  "copy_props PROP_MAX names vals props k i s = Inr (ok, s') \<Longrightarrow>
   cur_index s' = cur_index s \<and> tag_size s' = tag_size s \<and> (\<forall>j. j \<noteq> k \<longrightarrow> tag s' j = tag s j)"
proof (induction "nat (props - i)" arbitrary: i s)
  case 0
  then show ?case by (simp add: copy_props.simps)
next
  case (Suc n)
  then have less: "i < props" by simp
  from copy_props_unfold [OF Suc.prems less] obtain s4 where
    s4: "cur_index s4 = cur_index s" "tag_size s4 = tag_size s" "\<forall>j. j \<noteq> k \<longrightarrow> tag s4 j = tag s j"
    and alt: "s' = s4 \<or> copy_props PROP_MAX names vals props k (i + 1) s4 = Inr (ok, s')"
    by blast
  from alt show ?case
  proof
    assume "s' = s4"
    with s4 show ?thesis by simp
  next
    assume rec: "copy_props PROP_MAX names vals props k (i + 1) s4 = Inr (ok, s')"
    from Suc.hyps(2) have "n = nat (props - (i + 1))" by simp
    from Suc.hyps(1) [OF this rec] s4 show ?thesis by simp
  qed
qed

lemma callback_frame:
  "parse_tag_callback PROP_MAX name props names vals ln s = Inr (ok, s') \<Longrightarrow>
   cur_index s' = cur_index s \<and> tag_size s \<le> tag_size s' \<and> (\<forall>j < tag_size s. tag s' j = tag s j)"
  by (auto simp: parse_tag_callback_def Let_def frame_simps
      split: if_splits sum.splits prod.splits dest!: copy_props_frame strdup_buf_fields)

lemma set_error_fields:
  "cur_index (set_error msg st) = cur_index st" "tag_size (set_error msg st) = tag_size st"
  "tag (set_error msg st) = tag st"
  by (simp_all add: set_error_def strdup_def split: list.splits)

lemma inc_line_fields:
  "inc_line st = Inr st' \<Longrightarrow> cur_index st' = cur_index st \<and> tag_size st' = tag_size st \<and> tag st' = tag st"
  by (auto simp: inc_line_def split: if_splits)

lemma step_init_frame:
  "step_init st c top0 = Inr r \<Longrightarrow> r = Continue st' top1 \<or> r = Return_false st' \<Longrightarrow>
   cur_index st' = cur_index st \<and> tag_size st \<le> tag_size st' \<and> (\<forall>j < tag_size st. tag st' j = tag st j)"
  by (auto simp: step_init_def set_error_fields split: if_splits sum.splits dest!: inc_line_fields)

lemma step_tagname_frame:
  "step_tagname PROP_MAX st c top0 = Inr r \<Longrightarrow> r = Continue st' top1 \<or> r = Return_false st' \<Longrightarrow>
   cur_index st' = cur_index st \<and> tag_size st \<le> tag_size st' \<and> (\<forall>j < tag_size st. tag st' j = tag st j)"
  by (auto simp: step_tagname_def set_error_fields split: if_splits sum.splits prod.splits
      dest!: inc_line_fields callback_frame)

lemma step_propname_frame:
  "step_propname PROP_MAX st c top0 = Inr r \<Longrightarrow> r = Continue st' top1 \<or> r = Return_false st' \<Longrightarrow>
   cur_index st' = cur_index st \<and> tag_size st \<le> tag_size st' \<and> (\<forall>j < tag_size st. tag st' j = tag st j)"
  by (auto simp: step_propname_def set_error_fields split: if_splits sum.splits prod.splits
      dest!: inc_line_fields callback_frame)

lemma step_propvalue_quote_frame:
  "step_propvalue_quote st c top0 = Inr r \<Longrightarrow> r = Continue st' top1 \<or> r = Return_false st' \<Longrightarrow>
   cur_index st' = cur_index st \<and> tag_size st \<le> tag_size st' \<and> (\<forall>j < tag_size st. tag st' j = tag st j)"
  by (auto simp: step_propvalue_quote_def split: if_splits sum.splits dest!: inc_line_fields)

lemma step_propvalue_body_frame:
  "step_propvalue_body PROP_MAX st c top0 = Inr r \<Longrightarrow> r = Continue st' top1 \<or> r = Return_false st' \<Longrightarrow>
   cur_index st' = cur_index st \<and> tag_size st \<le> tag_size st' \<and> (\<forall>j < tag_size st. tag st' j = tag st j)"
  by (auto simp: step_propvalue_body_def append_value_def set_error_fields
      split: if_splits sum.splits)

lemma step_frame:
  assumes "step PROP_MAX st c top0 = Inr r" and "r = Continue st' top1 \<or> r = Return_false st'"
  shows "cur_index st' = cur_index st \<and> tag_size st \<le> tag_size st' \<and>
    (\<forall>j < tag_size st. tag st' j = tag st j)"
  using assms step_init_frame [of st c top0 r st' top1]
    step_tagname_frame [of PROP_MAX st c top0 r st' top1]
    step_propname_frame [of PROP_MAX st c top0 r st' top1]
    step_propvalue_quote_frame [of st c top0 r st' top1]
    step_propvalue_body_frame [of PROP_MAX st c top0 r st' top1]
  by (cases "p_state st") (simp_all add: step_def)

lemma parse_loop_frame:
  "parse_loop PROP_MAX st doc = Inr r \<Longrightarrow> r = Loop_end st' \<or> r = Loop_return_false st' \<Longrightarrow>
   cur_index st' = cur_index st \<and> tag_size st \<le> tag_size st' \<and> (\<forall>j < tag_size st. tag st' j = tag st j)"
proof (induction PROP_MAX st doc rule: parse_loop.induct)
  case (1 PROP_MAX st)
  then show ?case by (auto simp: parse_loop.simps)
next
  case (2 PROP_MAX st c top0)
  show ?case
  proof (cases "c = NUL")
    case True
    with "2.prems" show ?thesis by (auto simp: parse_loop.simps)
  next
    case False
    with "2.prems" obtain sr where sr: "step PROP_MAX st c top0 = Inr sr"
      by (auto simp: parse_loop.simps split: sum.splits)
    show ?thesis
    proof (cases sr)
      case (Return_false st1)
      with sr False "2.prems" have "st' = st1"
        by (auto simp: parse_loop.simps)
      with step_frame [OF sr, of st' top0] Return_false show ?thesis by blast
    next
      case (Continue st1 top1)
      with sr False "2.prems" have rec: "parse_loop PROP_MAX st1 top1 = Inr r"
        by (simp add: parse_loop.simps)
      from "2.IH" [OF False sr Continue rec "2.prems"(2)]
      have a: "cur_index st' = cur_index st1 \<and> tag_size st1 \<le> tag_size st' \<and>
        (\<forall>j<tag_size st1. tag st' j = tag st1 j)" .
      from step_frame [OF sr, of st1 top1] Continue
      have b: "cur_index st1 = cur_index st \<and> tag_size st \<le> tag_size st1 \<and>
        (\<forall>j<tag_size st. tag st1 j = tag st j)" by blast
      from a b show ?thesis by auto
    qed
  qed
qed

lemma cleanup_props_cur_index:
  "cleanup_props PROP_MAX i j s = Inr s' \<Longrightarrow> cur_index s' = cur_index s"
proof (induction "nat (PROP_MAX - j)" arbitrary: j s)
  case 0
  then show ?case by (simp add: cleanup_props.simps)
next
  case (Suc n)
  then have less: "j < PROP_MAX" by simp
  with Suc.prems obtain s1 s2 where
    a: "free_prop_name PROP_MAX i s = Inr s1" and
    b: "free_prop_value PROP_MAX i s1 = Inr s2" and
    c: "cleanup_props PROP_MAX i (j + 1) s2 = Inr s'"
    by (subst (asm) cleanup_props.simps) (auto split: sum.splits)
  from a have "cur_index s1 = cur_index s"
    by (auto simp: free_prop_name_def upd_tag_def split: if_splits sum.splits)
  moreover from b have "cur_index s2 = cur_index s1"
    by (auto simp: free_prop_value_def upd_tag_def split: if_splits sum.splits)
  moreover from Suc.hyps(2) have "n = nat (PROP_MAX - (j + 1))" by simp
  from Suc.hyps(1) [OF this c] have "cur_index s' = cur_index s2" .
  ultimately show ?case by simp
qed

lemma cleanup_tags_cur_index:
  "cleanup_tags PROP_MAX i s = Inr s' \<Longrightarrow> cur_index s' = cur_index s"
proof (induction PROP_MAX i s rule: cleanup_tags.induct)
  case (1 PROP_MAX i s)
  show ?case
  proof (cases "i < tag_size s")
    case False
    with "1.prems" show ?thesis by (simp add: cleanup_tags.simps)
  next
    case True
    with "1.prems" obtain p s1 where
      bounds: "\<not> (i < 0 \<or> COMMAND_MAX \<le> i)" and
      a: "free (tag_name (tag s i)) = Inr p" and
      b: "cleanup_props PROP_MAX i 0 (upd_tag i (\<lambda>t. t\<lparr>tag_name := p\<rparr>) s) = Inr s1" and
      c: "cleanup_tags PROP_MAX (i + 1) s1 = Inr s'"
      by (subst (asm) cleanup_tags.simps) (auto split: sum.splits if_splits)
    from "1.IH" [OF True bounds a b c] cleanup_props_cur_index [OF b]
    show ?thesis by (simp add: upd_tag_def)
  qed
qed

lemma cleanup_tag_cur_index: "cleanup_tag PROP_MAX s = Inr s' \<Longrightarrow> cur_index s' = 0"
  by (auto simp: cleanup_tag_def dest: cleanup_tags_cur_index)

lemma parse_tag_document_frame:
  assumes "parse_tag_document PROP_MAX doc s = Inr r"
    and "r = Parse_true s' \<or> r = Parse_false m ln s'"
  shows "cur_index s' = cur_index s \<and> tag_size s \<le> tag_size s' \<and>
    (\<forall>j < tag_size s. tag s' j = tag s j)"
proof -
  from assms(1) obtain lr where lr: "parse_loop PROP_MAX (parser_init s) doc = Inr lr"
    by (auto simp: parse_tag_document_def split: sum.splits)
  obtain st where st: "lr = Loop_end st \<or> lr = Loop_return_false st"
    by (cases lr) auto
  from parse_loop_frame [OF lr st]
  have fr: "cur_index st = cur_index s \<and> tag_size s \<le> tag_size st \<and>
    (\<forall>j < tag_size s. tag st j = tag s j)"
    by (simp add: parser_init_def)
  from assms lr st have "s' = system_of st \<or> s' = system_of (set_error ''Unexpected EOF'' st)"
    by (auto simp: parse_tag_document_def parse_false_def split: if_splits)
  with fr show ?thesis
    by (auto simp: system_of_def set_error_fields)
qed

text \<open>
  Claim C7, as the code has it. \<^verbatim>\<open>load_tag_file\<close> returns \<^verbatim>\<open>false\<close> before \<^verbatim>\<open>cleanup_tag\<close>
  when \<^verbatim>\<open>load_file\<close> fails, and then nothing of the state has changed. When the file has
  been read, every return of \<^verbatim>\<open>load_tag_file\<close>, with success or with a parse error,
  leaves the cursor at 0.
\<close>

theorem load_resets_cursor:
  "(fs missing = None \<longrightarrow> load_tag_file PROP_MAX fs missing s = Inr (False, s)) \<and>
   (fs file = Some doc \<and> load_tag_file PROP_MAX fs file s = Inr (ok, s') \<longrightarrow> cur_index s' = 0)"
proof (intro conjI impI)
  assume "fs missing = None"
  then show "load_tag_file PROP_MAX fs missing s = Inr (False, s)"
    by (simp add: load_tag_file_def)
next
  assume "fs file = Some doc \<and> load_tag_file PROP_MAX fs file s = Inr (ok, s')"
  then have a: "fs file = Some doc" "load_tag_file PROP_MAX fs file s = Inr (ok, s')"
    by simp_all
  then obtain s1 r where s1: "cleanup_tag PROP_MAX s = Inr s1"
    and r: "parse_tag_document PROP_MAX doc (s1\<lparr>cur_file := take 1023 file\<rparr>) = Inr r"
    by (auto simp: load_tag_file_def split: sum.splits)
  show "cur_index s' = 0"
  proof (cases r)
    case (Parse_true s2)
    with a s1 r have "s' = s2" by (simp add: load_tag_file_def)
    with parse_tag_document_frame [OF r, of s2] Parse_true cleanup_tag_cur_index [OF s1]
    show ?thesis by simp
  next
    case (Parse_false m ln s2)
    with a s1 r have "s' = log_entry (Log_parse_error file ln m) s2"
      by (auto simp: load_tag_file_def)
    with parse_tag_document_frame [OF r, of s2 m ln] Parse_false cleanup_tag_cur_index [OF s1]
    show ?thesis by (simp add: frame_simps)
  qed
qed

text \<open>The theorem for a path that cannot be read and for \<^verbatim>\<open>b.txt\<close>, from a state whose
  cursor is 1.\<close>

theorem load_resets_cursor_witness:
  "two_documents ''missing.txt'' = None \<and>
   load_tag_file 16 two_documents ''missing.txt'' (initial_state\<lparr>cur_index := 1\<rparr>) =
     Inr (False, initial_state\<lparr>cur_index := 1\<rparr>) \<and>
   two_documents ''b.txt'' = Some ''[b]'' \<and>
   (\<exists>s'. load_tag_file 16 two_documents ''b.txt'' (initial_state\<lparr>cur_index := 1\<rparr>) = Inr (True, s') \<and>
      cur_index s' = 0)"
proof -
  obtain s' where s': "load_tag_file 16 two_documents ''b.txt'' (initial_state\<lparr>cur_index := 1\<rparr>) =
      Inr (True, s')"
    by (simp add: load_defs parse_defs step_defs callback_defs c_string_numeral
        initial_state_def zero_tag_def)
  have a: "two_documents ''missing.txt'' = None" and b: "two_documents ''b.txt'' = Some ''[b]''"
    by simp_all
  from load_resets_cursor [of two_documents "''missing.txt''" 16 "initial_state\<lparr>cur_index := 1\<rparr>"
      "''b.txt''" "''[b]''" True s'] a b s'
  show ?thesis by simp
qed

text \<open>
  Claim C7 as stated fails where the file cannot be read: after one
  \<^verbatim>\<open>move_to_next_tag\<close> from the initial state the cursor is 1, and a load of a path that
  cannot be read returns \<^verbatim>\<open>false\<close> and leaves the cursor at 1.
\<close>

theorem failed_read_keeps_cursor_counterexample:
  "move_to_next_tag initial_state = Inr (initial_state\<lparr>cur_index := 1\<rparr>) \<and>
   load_tag_file 16 two_documents ''missing.txt'' (initial_state\<lparr>cur_index := 1\<rparr>) =
     Inr (False, initial_state\<lparr>cur_index := 1\<rparr>) \<and>
   cur_index (initial_state\<lparr>cur_index := 1\<rparr>) = 1"
  by (simp add: move_to_next_tag_def load_tag_file_def initial_state_def)

subsection \<open>A failed load\<close>

text \<open>A run of the loop over a document that ends in \<^verbatim>\<open>ST_INIT\<close> is the beginning of the
  run over any longer document. One step reads the character after \<open>c\<close> only for a
  backslash in \<^verbatim>\<open>ST_PROPVALUE_BODY\<close>, and a run whose last character is such a backslash
  does not end in \<^verbatim>\<open>ST_INIT\<close>.\<close>

lemma step_init_append:
  "step_init st c top0 = Inr (Continue st1 top1) \<Longrightarrow>
   step_init st c (top0 @ d2) = Inr (Continue st1 (top1 @ d2))"
  by (auto simp: step_init_def split: if_splits sum.splits)

lemma step_tagname_append:
  "step_tagname PROP_MAX st c top0 = Inr (Continue st1 top1) \<Longrightarrow>
   step_tagname PROP_MAX st c (top0 @ d2) = Inr (Continue st1 (top1 @ d2))"
  by (auto simp: step_tagname_def split: if_splits sum.splits prod.splits)

lemma step_propname_append:
  "step_propname PROP_MAX st c top0 = Inr (Continue st1 top1) \<Longrightarrow>
   step_propname PROP_MAX st c (top0 @ d2) = Inr (Continue st1 (top1 @ d2))"
  by (auto simp: step_propname_def split: if_splits sum.splits prod.splits)

lemma step_propvalue_quote_append:
  "step_propvalue_quote st c top0 = Inr (Continue st1 top1) \<Longrightarrow>
   step_propvalue_quote st c (top0 @ d2) = Inr (Continue st1 (top1 @ d2))"
  by (auto simp: step_propvalue_quote_def split: if_splits sum.splits)

lemma step_propvalue_body_append:
  "step_propvalue_body PROP_MAX st c top0 = Inr (Continue st1 top1) \<Longrightarrow>
   c \<noteq> BSLASH \<or> top0 \<noteq> [] \<Longrightarrow>
   step_propvalue_body PROP_MAX st c (top0 @ d2) = Inr (Continue st1 (top1 @ d2))"
  by (cases top0)
    (auto simp: step_propvalue_body_def append_value_def peek_def split: if_splits sum.splits)

lemma step_append:
  assumes "step PROP_MAX st c top0 = Inr (Continue st1 top1)"
    and "p_state st \<noteq> ST_PROPVALUE_BODY \<or> c \<noteq> BSLASH \<or> top0 \<noteq> []"
  shows "step PROP_MAX st c (top0 @ d2) = Inr (Continue st1 (top1 @ d2))"
  using assms step_init_append [of st c top0 st1 top1 d2]
    step_tagname_append [of PROP_MAX st c top0 st1 top1 d2]
    step_propname_append [of PROP_MAX st c top0 st1 top1 d2]
    step_propvalue_quote_append [of st c top0 st1 top1 d2]
    step_propvalue_body_append [of PROP_MAX st c top0 st1 top1 d2]
  by (cases "p_state st") (auto simp: step_def)

lemma step_rest:
  "step PROP_MAX st c top0 = Inr (Continue st1 top1) \<Longrightarrow> top1 = top0 \<or> top1 = tl top0"
  by (auto simp: step_def step_init_def step_tagname_def step_propname_def
      step_propvalue_quote_def step_propvalue_body_def append_value_def
      split: state.splits if_splits sum.splits prod.splits)

lemma body_backslash_stays:
  "step PROP_MAX st BSLASH [] = Inr (Continue st1 top1) \<Longrightarrow> p_state st = ST_PROPVALUE_BODY \<Longrightarrow>
   top1 = [] \<and> p_state st1 = ST_PROPVALUE_BODY"
  by (auto simp: step_def step_propvalue_body_def append_value_def peek_def
      split: if_splits sum.splits)

lemma parse_loop_append:
  "parse_loop PROP_MAX st d1 = Inr (Loop_end st1) \<Longrightarrow> p_state st1 = ST_INIT \<Longrightarrow> NUL \<notin> set d1 \<Longrightarrow>
   parse_loop PROP_MAX st (d1 @ d2) = parse_loop PROP_MAX st1 d2"
proof (induction PROP_MAX st d1 rule: parse_loop.induct)
  case (1 PROP_MAX st)
  then show ?case by (simp add: parse_loop.simps)
next
  case (2 PROP_MAX st c top0)
  from "2.prems" have c: "c \<noteq> NUL" by auto
  with "2.prems" obtain st2 top2 where
    sr: "step PROP_MAX st c top0 = Inr (Continue st2 top2)"
    and rec: "parse_loop PROP_MAX st2 top2 = Inr (Loop_end st1)"
    by (auto simp: parse_loop.simps split: sum.splits step_result.splits)
  have ok: "p_state st \<noteq> ST_PROPVALUE_BODY \<or> c \<noteq> BSLASH \<or> top0 \<noteq> []"
  proof (rule ccontr)
    assume "\<not> ?thesis"
    then have b: "p_state st = ST_PROPVALUE_BODY" "c = BSLASH" "top0 = []" by auto
    with sr body_backslash_stays [of PROP_MAX st st2 top2]
    have "top2 = []" "p_state st2 = ST_PROPVALUE_BODY" by auto
    with rec have "st1 = st2" by (simp add: parse_loop.simps)
    with \<open>p_state st2 = ST_PROPVALUE_BODY\<close> "2.prems"(2) show False by simp
  qed
  from step_rest [OF sr] "2.prems"(3) have "NUL \<notin> set top2"
    by (cases top0) auto
  from "2.IH" [OF c sr refl rec "2.prems"(2) this]
  have "parse_loop PROP_MAX st2 (top2 @ d2) = parse_loop PROP_MAX st1 d2" .
  with step_append [OF sr ok, of d2] c show ?case
    by (simp add: parse_loop.simps)
qed

text \<open>
  Claim C5, as the code has it. A load that fails on a parse error has reset the cursor
  to 0, and it does not roll back: when the document begins with a text \<open>d1\<close> that is a
  complete document by itself (loading \<open>d1\<close> alone succeeds), every record that is in the
  store after loading \<open>d1\<close> is in the store, unchanged, after the failed load. The two
  loads start in the same state and read the same path, whose file holds \<open>d1\<close> for the
  one and \<open>d1 @ d2\<close> for the other.
\<close>

theorem failed_load_keeps_completed_records:
  assumes "fs1 file = Some d1" and "fs file = Some (d1 @ d2)" and "NUL \<notin> set d1"
    and "load_tag_file PROP_MAX fs1 file s = Inr (True, s1)"
    and "load_tag_file PROP_MAX fs file s = Inr (False, s')"
  shows "cur_index s' = 0 \<and> tag_size s1 \<le> tag_size s' \<and>
    (\<forall>i. i < tag_size s1 \<longrightarrow> tag s' i = tag s1 i)"
proof -
  from assms(1,4) obtain sc where sc: "cleanup_tag PROP_MAX s = Inr sc"
    by (auto simp: load_tag_file_def split: sum.splits)
  define s0 where "s0 = sc\<lparr>cur_file := take 1023 file\<rparr>"
  from assms(1,4) sc have p1: "parse_tag_document PROP_MAX d1 s0 = Inr (Parse_true s1)"
    by (auto simp: load_tag_file_def s0_def split: sum.splits parse_return.splits)
  from assms(2,5) sc obtain m ln s2 where
    p2: "parse_tag_document PROP_MAX (d1 @ d2) s0 = Inr (Parse_false m ln s2)"
    and s': "s' = log_entry (Log_parse_error file ln m) s2"
    by (auto simp: load_tag_file_def s0_def split: sum.splits parse_return.splits)
  from p1 obtain st1 where
    l1: "parse_loop PROP_MAX (parser_init s0) d1 = Inr (Loop_end st1)"
    and st1: "p_state st1 = ST_INIT" "s1 = system_of st1"
    by (auto simp: parse_tag_document_def parse_false_def
        split: sum.splits loop_result.splits if_splits)
  from parse_loop_append [OF l1 st1(1) assms(3), of d2]
  have l2: "parse_loop PROP_MAX (parser_init s0) (d1 @ d2) = parse_loop PROP_MAX st1 d2" .
  with p2 obtain lr where lr: "parse_loop PROP_MAX st1 d2 = Inr lr"
    by (auto simp: parse_tag_document_def split: sum.splits)
  obtain st2 where st2: "lr = Loop_end st2 \<or> lr = Loop_return_false st2"
    by (cases lr) auto
  from parse_loop_frame [OF lr st2]
  have fr2: "cur_index st2 = cur_index st1" "tag_size st1 \<le> tag_size st2"
    "\<forall>j<tag_size st1. tag st2 j = tag st1 j"
    by simp_all
  from parse_loop_frame [OF l1, of st1] have "cur_index st1 = cur_index sc"
    by (simp add: parser_init_def s0_def)
  with cleanup_tag_cur_index [OF sc] have c1: "cur_index st1 = 0" by simp
  from p2 l2 lr st2 have "s2 = system_of st2 \<or> s2 = system_of (set_error ''Unexpected EOF'' st2)"
    by (auto simp: parse_tag_document_def parse_false_def split: if_splits)
  then have "cur_index s' = cur_index st2 \<and> tag_size s' = tag_size st2 \<and> tag s' = tag st2"
    by (auto simp: s' system_of_def set_error_fields frame_simps)
  with fr2 c1 st1(2) show ?thesis
    by (simp add: system_of_def)
qed

text \<open>The theorem for the documents \<^verbatim>\<open>[a]\<close> and \<^verbatim>\<open>[a]x\<close>, loaded from the initial state.\<close>

theorem failed_load_keeps_completed_records_witness:
  "\<exists>s1 s'. map_of [(''f.txt'', ''[a]'')] ''f.txt'' = Some ''[a]'' \<and>
     map_of [(''f.txt'', ''[a]x'')] ''f.txt'' = Some (''[a]'' @ ''x'') \<and>
     NUL \<notin> set ''[a]'' \<and>
     load_tag_file 16 (map_of [(''f.txt'', ''[a]'')]) ''f.txt'' initial_state = Inr (True, s1) \<and>
     load_tag_file 16 (map_of [(''f.txt'', ''[a]x'')]) ''f.txt'' initial_state = Inr (False, s') \<and>
     cur_index s' = 0 \<and> tag_size s1 = 1 \<and> tag_size s1 \<le> tag_size s' \<and>
     tag s' 0 = tag s1 0 \<and> tag_name (tag s1 0) = Ptr ''a''"
proof -
  obtain s1 where s1: "load_tag_file 16 (map_of [(''f.txt'', ''[a]'')]) ''f.txt'' initial_state =
      Inr (True, s1)" and s1_facts: "tag_size s1 = 1" "tag_name (tag s1 0) = Ptr ''a''"
    by (simp add: load_defs parse_defs step_defs callback_defs c_string_numeral
        initial_state_def zero_tag_def)
  obtain s' where s': "load_tag_file 16 (map_of [(''f.txt'', ''[a]x'')]) ''f.txt'' initial_state =
      Inr (False, s')"
    by (simp add: load_defs parse_defs step_defs callback_defs c_string_numeral
        initial_state_def zero_tag_def)
  have a: "map_of [(''f.txt'', ''[a]'')] ''f.txt'' = Some ''[a]''"
    and b: "map_of [(''f.txt'', ''[a]x'')] ''f.txt'' = Some (''[a]'' @ ''x'')"
    and c: "NUL \<notin> set ''[a]''"
    by simp_all
  from failed_load_keeps_completed_records [OF a b c s1 s'] s1 s' s1_facts a b c
  show ?thesis by (intro exI [of _ s1] exI [of _ s']) simp
qed

text \<open>
  Claim C5 as stated fails: the load of the document \<^verbatim>\<open>[a]x\<close> from the initial state
  returns \<^verbatim>\<open>false\<close> (the \<^verbatim>\<open>x\<close> after the tag is an invalid character), and the store then
  holds one record, the tag \<^verbatim>\<open>a\<close>.
\<close>

theorem failed_load_not_empty_counterexample:
  "\<not> isl (load_tag_file 16 (map_of [(''f.txt'', ''[a]x'')]) ''f.txt'' initial_state) \<and>
   \<not> fst (projr (load_tag_file 16 (map_of [(''f.txt'', ''[a]x'')]) ''f.txt'' initial_state)) \<and>
   tag_size (snd (projr (load_tag_file 16 (map_of [(''f.txt'', ''[a]x'')]) ''f.txt'' initial_state))) = 1 \<and>
   tag_name (tag (snd (projr (load_tag_file 16 (map_of [(''f.txt'', ''[a]x'')]) ''f.txt'' initial_state))) 0) = Ptr ''a''"
proof -
  obtain s' where "load_tag_file 16 (map_of [(''f.txt'', ''[a]x'')]) ''f.txt'' initial_state =
      Inr (False, s')" and "tag_size s' = 1" and "tag_name (tag s' 0) = Ptr ''a''"
    by (simp add: load_defs parse_defs step_defs callback_defs c_string_numeral
        initial_state_def zero_tag_def)
  then show ?thesis by simp
qed

subsection \<open>A second load\<close>

text \<open>The inner loop of \<^verbatim>\<open>cleanup_tag\<close> changes nothing when the two entries it looks at are
  \<open>NULL\<close>, and does not run when \<open>PROP_MAX\<close> is not positive.\<close>

lemma cleanup_props_nothing:
  "0 \<le> i \<Longrightarrow> i < PROP_MAX \<Longrightarrow> prop_name (tag s i) i = NULL \<Longrightarrow> prop_value (tag s i) i = NULL
   \<Longrightarrow> cleanup_props PROP_MAX i j s = Inr s"
proof (induction "nat (PROP_MAX - j)" arbitrary: j)
  case 0
  then show ?case by (simp add: cleanup_props.simps)
next
  case (Suc n)
  then have less: "j < PROP_MAX" by simp
  from Suc.prems have a: "free_prop_name PROP_MAX i s = Inr s"
    and b: "free_prop_value PROP_MAX i s = Inr s"
    by (simp_all add: free_prop_name_def free_prop_value_def)
  from Suc.hyps(2) have "n = nat (PROP_MAX - (j + 1))" by simp
  from Suc.hyps(1) [OF this Suc.prems] a b less show ?case
    by (subst cleanup_props.simps) simp
qed

lemma cleanup_props_no_loop: "PROP_MAX \<le> 0 \<Longrightarrow> cleanup_props PROP_MAX i 0 s = Inr s"
  by (simp add: cleanup_props.simps)

text \<open>
  Claim C1 fails on the code. \<^verbatim>\<open>cleanup_tag\<close> frees the names of the records and sets
  the cursor to 0, but it never sets \<^verbatim>\<open>tag_size\<close> to 0 (no statement of the file does).
  After loading \<^verbatim>\<open>a.txt\<close> (one tag, on line 3) and then \<^verbatim>\<open>b.txt\<close> (one tag, on line 1),
  both with success, the store length is 2, not 1: entry 0 is still the record of
  \<^verbatim>\<open>a.txt\<close>, with its line 3 and a name that has been freed, and the record of \<^verbatim>\<open>b.txt\<close> is
  entry 1.
\<close>

theorem second_load_keeps_first_records:
  "\<exists>s1 s2. load_tag_file PROP_MAX two_documents ''a.txt'' initial_state = Inr (True, s1) \<and>
     tag_size s1 = 1 \<and>
     load_tag_file PROP_MAX two_documents ''b.txt'' s1 = Inr (True, s2) \<and>
     tag_size s2 = 2 \<and> 
     tag_name (tag s2 0) = Freed \<and> line (tag s2 0) = 3 \<and>
     tag_name (tag s2 1) = Ptr ''b'' \<and> line (tag s2 1) = 1"
proof (cases "0 < PROP_MAX")
  case True
  then show ?thesis
    by (simp add: load_defs parse_defs step_defs callback_defs c_string_numeral
        initial_state_def zero_tag_def cleanup_props_nothing)
next
  case False
  then show ?thesis
    by (simp add: load_defs parse_defs step_defs callback_defs c_string_numeral
        initial_state_def zero_tag_def cleanup_props_no_loop)
qed

text \<open>
  Claim C8 fails on the code after a second load, by the same defect. \<^verbatim>\<open>b.txt\<close> has
  \<open>N = 1\<close> record. After loading \<^verbatim>\<open>a.txt\<close> and then \<^verbatim>\<open>b.txt\<close> the cursor is 0; the first
  \<^verbatim>\<open>get_current_tag\<close> returns entry 0, the stale record of \<^verbatim>\<open>a.txt\<close> (freed name, line 3),
  and after one \<^verbatim>\<open>move_to_next_tag\<close> the second \<^verbatim>\<open>get_current_tag\<close> returns entry 1, the
  record of \<^verbatim>\<open>b.txt\<close>, where the claim expects \<open>NULL\<close> and the line \<open>-1\<close>.
\<close>

theorem cursor_after_second_load:
  "\<exists>s1 s2 s3. load_tag_file PROP_MAX two_documents ''a.txt'' initial_state = Inr (True, s1) \<and>
     load_tag_file PROP_MAX two_documents ''b.txt'' s1 = Inr (True, s2) \<and>
     cur_index s2 = 0 \<and> get_current_tag s2 = Tag_at 0 \<and> tag_name (tag s2 0) = Freed \<and>
     get_tag_line s2 = Inr 3 \<and>
     move_to_next_tag s2 = Inr s3 \<and>
     get_current_tag s3 = Tag_at 1 \<and> tag_name (tag s3 1) = Ptr ''b'' \<and> get_tag_line s3 = Inr 1"
proof (cases "0 < PROP_MAX")
  case True
  then show ?thesis
    by (simp add: load_defs parse_defs step_defs callback_defs c_string_numeral
        initial_state_def zero_tag_def cleanup_props_nothing
        get_current_tag_def get_tag_line_def move_to_next_tag_def)
next
  case False
  then show ?thesis
    by (simp add: load_defs parse_defs step_defs callback_defs c_string_numeral
        initial_state_def zero_tag_def cleanup_props_no_loop
        get_current_tag_def get_tag_line_def move_to_next_tag_def)
qed

end
